theory Spec2Isabelle
  imports Complex_Main
begin

section \<open>Complex vectors and matrices over finite index types\<close>

text \<open>
  The lead and scattering-region quantities of the slides are dense complex matrices.
  A vector of dimension \<open>n\<close> is a function from a finite index type, a matrix a
  function of a row and a column index; the usual operations are finite sums.
\<close>

type_synonym 'n cvec = "'n \<Rightarrow> complex"
type_synonym ('m, 'n) cmat = "'m \<Rightarrow> 'n \<Rightarrow> complex"

definition vzero :: "'n cvec" where
  "vzero = (\<lambda>i. 0)"

definition vadd :: "'n cvec \<Rightarrow> 'n cvec \<Rightarrow> 'n cvec" where
  "vadd x y = (\<lambda>i. x i + y i)"

definition smult :: "complex \<Rightarrow> 'n cvec \<Rightarrow> 'n cvec" where
  "smult c x = (\<lambda>i. c * x i)"

definition mzero :: "('m, 'n) cmat" where
  "mzero = (\<lambda>i j. 0)"

definition mone :: "('n, 'n) cmat" where
  "mone = (\<lambda>i j. if i = j then 1 else 0)"

definition madd :: "('m, 'n) cmat \<Rightarrow> ('m, 'n) cmat \<Rightarrow> ('m, 'n) cmat" where
  "madd A B = (\<lambda>i j. A i j + B i j)"

definition msmult :: "complex \<Rightarrow> ('m, 'n) cmat \<Rightarrow> ('m, 'n) cmat" where
  "msmult c A = (\<lambda>i j. c * A i j)"

definition mv :: "('m, 'n::finite) cmat \<Rightarrow> 'n cvec \<Rightarrow> 'm cvec" where
  "mv A x = (\<lambda>i. \<Sum>j\<in>UNIV. A i j * x j)"

definition mm :: "('m, 'k::finite) cmat \<Rightarrow> ('k, 'n) cmat \<Rightarrow> ('m, 'n) cmat" where
  "mm A B = (\<lambda>i j. \<Sum>k\<in>UNIV. A i k * B k j)"

definition dagger :: "('m, 'n) cmat \<Rightarrow> ('n, 'm) cmat" where
  "dagger A = (\<lambda>i j. cnj (A j i))"

definition mtranspose :: "('m, 'n) cmat \<Rightarrow> ('n, 'm) cmat" where
  "mtranspose A = (\<lambda>i j. A j i)"

definition cdot :: "('n::finite) cvec \<Rightarrow> 'n cvec \<Rightarrow> complex" where
  "cdot x y = (\<Sum>i\<in>UNIV. cnj (x i) * y i)"

definition hermitian :: "('n, 'n) cmat \<Rightarrow> bool" where
  "hermitian A \<longleftrightarrow> dagger A = A"

definition is_inverse :: "('n::finite, 'n) cmat \<Rightarrow> ('n, 'n) cmat \<Rightarrow> bool" where
  "is_inverse A Ai \<longleftrightarrow> mm A Ai = mone \<and> mm Ai A = mone"

text \<open>\<open>H - E\<close>: the energy is real and is subtracted on the diagonal.\<close>

definition shiftE :: "('n, 'n) cmat \<Rightarrow> real \<Rightarrow> ('n, 'n) cmat" where
  "shiftE H E = (\<lambda>i j. H i j - (if i = j then complex_of_real E else 0))"

section \<open>The mode problem of a lead\<close>

text \<open>
  Bloch's theorem reduces every row of the lead's Schroedinger equation to the quadratic
  eigenvalue relation \<open>V \<phi> + \<lambda> (H - E) \<phi> + \<lambda>\<^sup>2 V\<^sup>\<dagger> \<phi> = 0\<close>.
  \<open>quad_residual\<close> is its left-hand side.
\<close>

definition quad_residual ::
    "('n::finite, 'n) cmat \<Rightarrow> ('n, 'n) cmat \<Rightarrow> real \<Rightarrow> complex \<Rightarrow> 'n cvec \<Rightarrow> 'n cvec" where
  "quad_residual H V E lam phi =
     vadd (mv V phi)
       (vadd (smult lam (mv (shiftE H E) phi))
             (smult (lam\<^sup>2) (mv (dagger V) phi)))"

text \<open>
  The origin of the relation: row \<open>n\<close> of the lead's Schroedinger equation,
  \<open>V \<psi>\<^sub>n\<^sub>-\<^sub>1 + (H - E) \<psi>\<^sub>n + V\<^sup>\<dagger> \<psi>\<^sub>n\<^sub>+\<^sub>1 = 0\<close>, for a Bloch wave \<open>\<psi>\<^sub>n = \<lambda>\<^sup>n \<phi>\<close>.
\<close>

definition lead_row ::
    "('n::finite, 'n) cmat \<Rightarrow> ('n, 'n) cmat \<Rightarrow> real \<Rightarrow> (int \<Rightarrow> 'n cvec) \<Rightarrow> int \<Rightarrow> 'n cvec" where
  "lead_row H V E psi n =
     vadd (mv V (psi (n - 1))) (vadd (mv (shiftE H E) (psi n)) (mv (dagger V) (psi (n + 1))))"

definition bloch_wave :: "complex \<Rightarrow> 'n cvec \<Rightarrow> int \<Rightarrow> 'n cvec" where
  "bloch_wave lam phi n = smult (power_int lam n) phi"

text \<open>
  Block vectors \<open>(\<phi>, \<xi>)\<close> are pairs, a 2 x 2 block matrix is the tuple of its blocks
  \<open>(M11, M12, M21, M22)\<close>.
\<close>

type_synonym ('a, 'b) bvec = "'a cvec \<times> 'b cvec"
type_synonym ('a, 'b) bmat = "('a, 'a) cmat \<times> ('a, 'b) cmat \<times> ('b, 'a) cmat \<times> ('b, 'b) cmat"

fun bmv :: "('a::finite, 'b::finite) bmat \<Rightarrow> ('a, 'b) bvec \<Rightarrow> ('a, 'b) bvec" where
  "bmv (M11, M12, M21, M22) (x, y) =
     (vadd (mv M11 x) (mv M12 y), vadd (mv M21 x) (mv M22 y))"

fun bsmult :: "complex \<Rightarrow> ('a, 'b) bvec \<Rightarrow> ('a, 'b) bvec" where
  "bsmult c (x, y) = (smult c x, smult c y)"

text \<open>
  The linearisation with \<open>\<xi> = \<lambda> \<phi>\<close>: the generalized eigenvalue problem
  \<open>[[H - E, V\<^sup>\<dagger>], [1, 0]] (\<phi>, \<xi>) = \<lambda>\<^sup>-\<^sup>1 [[-V, 0], [0, 1]] (\<phi>, \<xi>)\<close>.
\<close>

definition gevp_lhs :: "('n, 'n) cmat \<Rightarrow> ('n, 'n) cmat \<Rightarrow> real \<Rightarrow> ('n, 'n) bmat" where
  "gevp_lhs H V E = (shiftE H E, dagger V, mone, mzero)"

definition gevp_rhs :: "('n, 'n) cmat \<Rightarrow> ('n, 'n) bmat" where
  "gevp_rhs V = (msmult (- 1) V, mzero, mzero, mone)"

definition gevp_holds ::
    "('n::finite, 'n) cmat \<Rightarrow> ('n, 'n) cmat \<Rightarrow> real \<Rightarrow> complex \<Rightarrow> ('n, 'n) bvec \<Rightarrow> bool" where
  "gevp_holds H V E lam x \<longleftrightarrow>
     bmv (gevp_lhs H V E) x = bsmult (inverse lam) (bmv (gevp_rhs V) x)"

section \<open>The non-singular path\<close>

text \<open>
  For an invertible hopping matrix the slides factor \<open>V = A B\<^sup>\<dagger>\<close> with
  \<open>A = V / \<surd>\<parallel>V\<parallel>\<close> and the scalar \<open>B = \<surd>\<parallel>V\<parallel>\<close>. The value \<open>nv\<close> of the norm \<open>\<parallel>V\<parallel>\<close> is a
  parameter (the slides do not fix the norm, and only its positivity matters). With the
  inverse \<open>Vi\<close> of \<open>V\<close> the inverses of the factors are \<open>A\<^sup>-\<^sup>1 = \<surd>\<parallel>V\<parallel> V\<^sup>-\<^sup>1\<close> and
  \<open>(B\<^sup>\<dagger>)\<^sup>-\<^sup>1 = 1 / \<surd>\<parallel>V\<parallel>\<close>.
\<close>

definition hop_A_nonsing :: "real \<Rightarrow> ('n, 'n) cmat \<Rightarrow> ('n, 'n) cmat" where
  "hop_A_nonsing nv V = msmult (1 / complex_of_real (sqrt nv)) V"

definition hop_B_nonsing :: "real \<Rightarrow> ('n, 'n) cmat" where
  "hop_B_nonsing nv = msmult (complex_of_real (sqrt nv)) mone"

definition hop_A_inv :: "real \<Rightarrow> ('n, 'n) cmat \<Rightarrow> ('n, 'n) cmat" where
  "hop_A_inv nv Vi = msmult (complex_of_real (sqrt nv)) Vi"

definition hop_Bdag_inv :: "real \<Rightarrow> ('n, 'n) cmat" where
  "hop_Bdag_inv nv = msmult (1 / complex_of_real (sqrt nv)) mone"

text \<open>The stabilised coordinates \<open>\<phi>' = B\<^sup>\<dagger> \<phi>\<close> and \<open>\<xi>' = A\<^sup>\<dagger> \<xi>\<close>.\<close>

definition phibar :: "('n::finite, 'r) cmat \<Rightarrow> 'n cvec \<Rightarrow> 'r cvec" where
  "phibar B phi = mv (dagger B) phi"

definition xibar :: "('n::finite, 'r) cmat \<Rightarrow> 'n cvec \<Rightarrow> 'r cvec" where
  "xibar A xi = mv (dagger A) xi"

text \<open>
  The block matrix \<open>[[-A\<^sup>-\<^sup>1 (H - E) (B\<^sup>\<dagger>)\<^sup>-\<^sup>1, -A\<^sup>-\<^sup>1 B], [A\<^sup>\<dagger> (B\<^sup>\<dagger>)\<^sup>-\<^sup>1, 0]]\<close> of the standard
  eigenproblem, and what it means that \<open>x\<close> solves a standard eigenproblem for \<open>\<mu>\<close>.
\<close>

definition nonsing_matrix ::
    "('n::finite, 'n) cmat \<Rightarrow> real \<Rightarrow> ('n, 'n) cmat \<Rightarrow> ('n, 'n) cmat \<Rightarrow> ('n, 'n) cmat \<Rightarrow> ('n, 'n) cmat
       \<Rightarrow> ('n, 'n) bmat" where
  "nonsing_matrix H E A Ai B Bdi =
     (msmult (- 1) (mm Ai (mm (shiftE H E) Bdi)), msmult (- 1) (mm Ai B),
      mm (dagger A) Bdi, mzero)"

definition eig_holds :: "('a::finite, 'b::finite) bmat \<Rightarrow> complex \<Rightarrow> ('a, 'b) bvec \<Rightarrow> bool" where
  "eig_holds M mu x \<longleftrightarrow> bmv M x = bsmult mu x"

text \<open>The problem of the non-singular path for a lead \<open>(H, V)\<close> at energy \<open>E\<close>.\<close>

definition nonsing_problem ::
    "('n::finite, 'n) cmat \<Rightarrow> ('n, 'n) cmat \<Rightarrow> real \<Rightarrow> real \<Rightarrow> ('n, 'n) cmat \<Rightarrow> ('n, 'n) bmat" where
  "nonsing_problem H V E nv Vi =
     nonsing_matrix H E (hop_A_nonsing nv V) (hop_A_inv nv Vi) (hop_B_nonsing nv) (hop_Bdag_inv nv)"

section \<open>The singular path\<close>

text \<open>
  When the hopping matrix is not invertible it is factored by a singular value
  decomposition \<open>V = U S W\<^sup>\<dagger>\<close>, and \<open>A = U \<surd>S\<close>, \<open>B = W \<surd>S\<close>. The decomposition comes from
  a library routine: \<open>U\<close>, the singular values \<open>s\<close> and \<open>W\<close> are inputs here.
\<close>

definition diag :: "('r \<Rightarrow> real) \<Rightarrow> ('r, 'r) cmat" where
  "diag s = (\<lambda>i j. if i = j then complex_of_real (s i) else 0)"

definition svd_product :: "('n, 'r::finite) cmat \<Rightarrow> ('r \<Rightarrow> real) \<Rightarrow> ('n, 'r) cmat \<Rightarrow> ('n, 'n) cmat" where
  "svd_product U s W = mm U (mm (diag s) (dagger W))"

definition hop_A_sing :: "('n, 'r::finite) cmat \<Rightarrow> ('r \<Rightarrow> real) \<Rightarrow> ('n, 'r) cmat" where
  "hop_A_sing U s = mm U (diag (\<lambda>k. sqrt (s k)))"

definition hop_B_sing :: "('n, 'r::finite) cmat \<Rightarrow> ('r \<Rightarrow> real) \<Rightarrow> ('n, 'r) cmat" where
  "hop_B_sing W s = mm W (diag (\<lambda>k. sqrt (s k)))"

text \<open>The shifted operator \<open>H - E + i A A\<^sup>\<dagger> + i B B\<^sup>\<dagger>\<close>; \<open>G\<close> below stands for its inverse.\<close>

definition Hbar ::
    "('n, 'n) cmat \<Rightarrow> real \<Rightarrow> ('n, 'r::finite) cmat \<Rightarrow> ('n, 'r) cmat \<Rightarrow> ('n, 'n) cmat" where
  "Hbar H E A B =
     madd (shiftE H E) (madd (msmult \<i> (mm A (dagger A))) (msmult \<i> (mm B (dagger B))))"

text \<open>
  The two block matrices of the stabilised problem in \<open>(B\<^sup>\<dagger> \<phi>, A\<^sup>\<dagger> \<xi>)\<close>:
  \<open>[[-i A\<^sup>\<dagger> G B, A\<^sup>\<dagger> G B], [1 - i B\<^sup>\<dagger> G B, B\<^sup>\<dagger> G B]]\<close> on the left and
  \<open>[[-A\<^sup>\<dagger> G A, i A\<^sup>\<dagger> G A - 1], [-B\<^sup>\<dagger> G A, i B\<^sup>\<dagger> G A]]\<close> on the right.
\<close>

definition sing_lhs ::
    "('n::finite, 'r::finite) cmat \<Rightarrow> ('n, 'r) cmat \<Rightarrow> ('n, 'n) cmat \<Rightarrow> ('r, 'r) bmat" where
  "sing_lhs A B G =
     (msmult (- \<i>) (mm (dagger A) (mm G B)),
      mm (dagger A) (mm G B),
      madd mone (msmult (- \<i>) (mm (dagger B) (mm G B))),
      mm (dagger B) (mm G B))"

definition sing_rhs ::
    "('n::finite, 'r::finite) cmat \<Rightarrow> ('n, 'r) cmat \<Rightarrow> ('n, 'n) cmat \<Rightarrow> ('r, 'r) bmat" where
  "sing_rhs A B G =
     (msmult (- 1) (mm (dagger A) (mm G A)),
      madd (msmult \<i> (mm (dagger A) (mm G A))) (msmult (- 1) mone),
      msmult (- 1) (mm (dagger B) (mm G A)),
      msmult \<i> (mm (dagger B) (mm G A)))"

text \<open>
  The wavefunction of a stabilised solution:
  \<open>\<phi> = G (- B \<xi>' - \<lambda>\<^sup>-\<^sup>1 A \<phi>' + i \<lambda>\<^sup>-\<^sup>1 A \<xi>' + i B \<phi>')\<close>.
\<close>

fun recover_phi ::
    "('n::finite, 'r::finite) cmat \<Rightarrow> ('n, 'r) cmat \<Rightarrow> ('n, 'n) cmat \<Rightarrow> complex \<Rightarrow> ('r, 'r) bvec
       \<Rightarrow> 'n cvec" where
  "recover_phi A B G lam (pb, xb) =
     mv G (vadd (smult (- 1) (mv B xb))
            (vadd (smult (- inverse lam) (mv A pb))
              (vadd (smult (\<i> * inverse lam) (mv A xb)) (smult \<i> (mv B pb)))))"

text \<open>
  If the right-hand block matrix is invertible its inverse is applied and a standard
  eigenproblem is solved, otherwise the problem is left in generalized form. The outcome
  of the inversion attempt is the optional inverse \<open>Ri\<close>: \<open>inverse_outcome R Ri\<close> says that
  an inverse that was returned is an inverse of \<open>R\<close>. \<open>bmm\<close> is the product of block
  matrices, \<open>bone\<close> the block identity, and \<open>solves\<close> says that a block vector solves an
  eigenproblem of either form for the eigenvalue \<open>\<mu>\<close>.
\<close>

datatype ('a, 'b) eigenproblem =
    Standard "('a, 'b) bmat"
  | Generalized "('a, 'b) bmat" "('a, 'b) bmat"

fun bmm :: "('a::finite, 'b::finite) bmat \<Rightarrow> ('a, 'b) bmat \<Rightarrow> ('a, 'b) bmat" where
  "bmm (X11, X12, X21, X22) (Y11, Y12, Y21, Y22) =
     (madd (mm X11 Y11) (mm X12 Y21), madd (mm X11 Y12) (mm X12 Y22),
      madd (mm X21 Y11) (mm X22 Y21), madd (mm X21 Y12) (mm X22 Y22))"

definition bone :: "('a, 'b) bmat" where
  "bone = (mone, mzero, mzero, mone)"

fun reduce_problem ::
    "('a::finite, 'b::finite) bmat \<Rightarrow> ('a, 'b) bmat \<Rightarrow> ('a, 'b) bmat option \<Rightarrow> ('a, 'b) eigenproblem" where
  "reduce_problem L R (Some Ri) = Standard (bmm Ri L)"
| "reduce_problem L R None = Generalized L R"

fun solves :: "('a::finite, 'b::finite) eigenproblem \<Rightarrow> complex \<Rightarrow> ('a, 'b) bvec \<Rightarrow> bool" where
  "solves (Standard M) mu x \<longleftrightarrow> eig_holds M mu x"
| "solves (Generalized L R) mu x \<longleftrightarrow> bmv L x = bsmult mu (bmv R x)"

fun inverse_outcome :: "('a::finite, 'b::finite) bmat \<Rightarrow> ('a, 'b) bmat option \<Rightarrow> bool" where
  "inverse_outcome R (Some Ri) \<longleftrightarrow> bmm R Ri = bone"
| "inverse_outcome R None \<longleftrightarrow> True"

definition singular_path_problem ::
    "('n::finite, 'r::finite) cmat \<Rightarrow> ('n, 'r) cmat \<Rightarrow> ('n, 'n) cmat \<Rightarrow> ('r, 'r) bmat option
       \<Rightarrow> ('r, 'r) eigenproblem" where
  "singular_path_problem A B G Ri = reduce_problem (sing_lhs A B G) (sing_rhs A B G) Ri"

subsection \<open>A lead with a rank-one hopping matrix\<close>

text \<open>
  Two sites per cell, \<open>H = [[1, 1], [1, 2]]\<close>, \<open>V = [[0, 1], [0, 0]]\<close>, \<open>E = 0\<close>; the index
  \<open>False\<close> is the first site. \<open>V = U S W\<^sup>\<dagger>\<close> with the single singular value 1.
\<close>

definition ex_H :: "(bool, bool) cmat" where
  "ex_H = (\<lambda>i j. if i \<and> j then 2 else 1)"

definition ex_V :: "(bool, bool) cmat" where
  "ex_V = (\<lambda>i j. if \<not> i \<and> j then 1 else 0)"

definition ex_U :: "(bool, unit) cmat" where
  "ex_U = (\<lambda>i k. if i then 0 else 1)"

definition ex_W :: "(bool, unit) cmat" where
  "ex_W = (\<lambda>i k. if i then 1 else 0)"

definition ex_s :: "unit \<Rightarrow> real" where
  "ex_s = (\<lambda>k. 1)"

definition ex_G :: "(bool, bool) cmat" where
  "ex_G = (\<lambda>i j. if i \<and> j then (1 - \<i>) / 3 else if \<not> i \<and> \<not> j then (1 - 2 * \<i>) / 3 else \<i> / 3)"

section \<open>The scattering problem\<close>

text \<open>
  Mode bundles are matrices whose columns are modes: \<open>\<Phi>\<^sub>+\<close> (outgoing, index type \<open>'o\<close>) with
  eigenvalue matrix \<open>\<Lambda>\<^sub>+\<close>, and \<open>\<Phi>\<^sub>p\<^sub>-\<close> (incoming propagating, index type \<open>'c\<close>) with \<open>\<Lambda>\<^sub>p\<^sub>-\<close>.
  The unknowns \<open>\<Psi>\<^sub>s\<close> and \<open>Q\<^sub>+\<close> have one column per incoming channel. A block system is the
  conjunction of its two block rows.
\<close>

fun unstabilized_system ::
    "('s::finite, 's) cmat \<Rightarrow> real \<Rightarrow> ('n::finite, 's) cmat \<Rightarrow> ('n, 'n) cmat
       \<Rightarrow> ('n, 'o::finite) cmat \<Rightarrow> ('o, 'o) cmat \<Rightarrow> ('n, 'c::finite) cmat \<Rightarrow> ('c, 'c) cmat
       \<Rightarrow> ('s, 'c) cmat \<times> ('o, 'c) cmat \<Rightarrow> bool" where
  "unstabilized_system Hs E P V Phip Lamp Phim Lamm (Psi, Q) \<longleftrightarrow>
     madd (mm (shiftE Hs E) Psi) (mm (mm (mtranspose P) (mm (dagger V) (mm Phip Lamp))) Q)
       = msmult (- 1) (mm (mtranspose P) (mm (dagger V) (mm Phim Lamm)))
     \<and> madd (mm (mm V P) Psi) (mm (msmult (- 1) (mm V Phip)) Q) = mm V Phim"

text \<open>The stabilised mode matrices \<open>\<Xi>' = A\<^sup>\<dagger> \<Phi> \<Lambda>\<close> and \<open>\<Phi>' = B\<^sup>\<dagger> \<Phi>\<close>.\<close>

definition Xi_bar :: "('n::finite, 'r) cmat \<Rightarrow> ('n, 'm::finite) cmat \<Rightarrow> ('m, 'm) cmat \<Rightarrow> ('r, 'm) cmat" where
  "Xi_bar A Phi Lam = mm (dagger A) (mm Phi Lam)"

definition Phi_bar :: "('n::finite, 'r) cmat \<Rightarrow> ('n, 'm) cmat \<Rightarrow> ('r, 'm) cmat" where
  "Phi_bar B Phi = mm (dagger B) Phi"

fun stabilized_system ::
    "('s::finite, 's) cmat \<Rightarrow> real \<Rightarrow> ('n::finite, 's) cmat \<Rightarrow> ('n, 'r::finite) cmat
       \<Rightarrow> ('r, 'o::finite) cmat \<Rightarrow> ('r, 'o) cmat \<Rightarrow> ('r, 'c) cmat \<Rightarrow> ('r, 'c) cmat
       \<Rightarrow> ('s, 'c) cmat \<times> ('o, 'c) cmat \<Rightarrow> bool" where
  "stabilized_system Hs E P B Xip Phibp Xim Phibm (Psi, Q) \<longleftrightarrow>
     madd (mm (shiftE Hs E) Psi) (mm (mm (mtranspose P) (mm B Xip)) Q)
       = msmult (- 1) (mm (mtranspose P) (mm B Xim))
     \<and> madd (mm (mm (dagger B) P) Psi) (mm (msmult (- 1) Phibp) Q) = Phibm"

text \<open>
  The scattering matrix is the submatrix of \<open>Q\<^sub>+\<close> on the rows of the propagating outgoing
  modes; \<open>sel\<close> enumerates these rows.
\<close>

definition smatrix :: "('p \<Rightarrow> 'o) \<Rightarrow> ('o, 'c) cmat \<Rightarrow> ('p, 'c) cmat" where
  "smatrix sel Q = (\<lambda>i j. Q (sel i) j)"

section \<open>Velocity, normalisation and classification of modes\<close>

text \<open>
  The mode velocity \<open>v = i \<phi>\<^sup>\<dagger> (\<lambda> V\<^sup>\<dagger> - \<lambda>\<^sup>-\<^sup>1 V) \<phi>\<close>. It is a real number for a propagating
  mode; \<open>velocity\<close> is its real part.
\<close>

definition velocity_c :: "('n::finite, 'n) cmat \<Rightarrow> complex \<Rightarrow> 'n cvec \<Rightarrow> complex" where
  "velocity_c V lam phi =
     \<i> * cdot phi (mv (madd (msmult lam (dagger V)) (msmult (- inverse lam) V)) phi)"

definition velocity :: "('n::finite, 'n) cmat \<Rightarrow> complex \<Rightarrow> 'n cvec \<Rightarrow> real" where
  "velocity V lam phi = Re (velocity_c V lam phi)"

text \<open>Wavefunctions are normalised to unit velocity: \<open>\<phi>\<close> is divided by \<open>\<surd>|v|\<close>.\<close>

definition normalize_mode :: "('n::finite, 'n) cmat \<Rightarrow> complex \<Rightarrow> 'n cvec \<Rightarrow> 'n cvec" where
  "normalize_mode V lam phi = smult (complex_of_real (1 / sqrt \<bar>velocity V lam phi\<bar>)) phi"

datatype direction = Outgoing | Incoming

datatype mode_class = Propagating direction | Evanescent

text \<open>
  Modelled from the spec: the classification step of \<open>solve_modes\<close> (the solver is Kwant
  code that the slides only link to). A mode is propagating when \<open>|\<lambda>|\<close> is 1 within the
  tolerance \<open>ltol\<close> and its velocity is not below the numerical-zero threshold \<open>vtol\<close>; a
  positive velocity is outgoing, a negative one incoming. Every other mode is evanescent.
\<close>

definition classify_mode ::
    "real \<Rightarrow> real \<Rightarrow> ('n::finite, 'n) cmat \<Rightarrow> complex \<Rightarrow> 'n cvec \<Rightarrow> mode_class" where
  "classify_mode ltol vtol V lam phi =
     (if \<bar>cmod lam - 1\<bar> \<le> ltol \<and> \<not> \<bar>velocity V lam phi\<bar> < vtol
      then Propagating (if 0 < velocity V lam phi then Outgoing else Incoming)
      else Evanescent)"

text \<open>
  Modelled from the spec: the channels of a list of modes are the positions of its
  propagating modes of a given direction.
\<close>

definition channels ::
    "direction \<Rightarrow> real \<Rightarrow> real \<Rightarrow> ('n::finite, 'n) cmat \<Rightarrow> (complex \<times> 'n cvec) list \<Rightarrow> nat list" where
  "channels d ltol vtol V ms =
     filter (\<lambda>k. classify_mode ltol vtol V (fst (ms ! k)) (snd (ms ! k)) = Propagating d)
       [0 ..< length ms]"

text \<open>
  Modelled from the spec: the scattering matrix as a list of rows, the submatrix of the
  extended scattering matrix on the outgoing channel rows and the incoming channel
  columns.
\<close>

definition smatrix_rows :: "(nat \<Rightarrow> nat \<Rightarrow> complex) \<Rightarrow> nat list \<Rightarrow> nat list \<Rightarrow> complex list list" where
  "smatrix_rows Q rows cols = map (\<lambda>i. map (\<lambda>j. Q i j) cols) rows"

text \<open>
  Modelled from the spec: the dimensions of the scattering matrix, the numbers of outgoing
  and of incoming propagating channels.
\<close>

definition smatrix_shape :: "nat list \<Rightarrow> nat list \<Rightarrow> nat \<times> nat" where
  "smatrix_shape rows cols = (length rows, length cols)"

section \<open>The single-band chain\<close>

text \<open>
  One site per cell with \<open>H = [2 t]\<close> and \<open>V = [t]\<close>, \<open>t\<close> real; \<open>chain_phi\<close> is the unit
  wavefunction. \<open>chain_theta t E\<close> is the angle \<open>\<theta>\<close> in \<open>[0, \<pi>]\<close> with
  \<open>E = 2 t - 2 t cos \<theta>\<close>.
\<close>

definition chain_H :: "real \<Rightarrow> (unit, unit) cmat" where
  "chain_H t = (\<lambda>i j. complex_of_real (2 * t))"

definition chain_V :: "real \<Rightarrow> (unit, unit) cmat" where
  "chain_V t = (\<lambda>i j. complex_of_real t)"

definition chain_phi :: "unit cvec" where
  "chain_phi = (\<lambda>i. 1)"

definition chain_theta :: "real \<Rightarrow> real \<Rightarrow> real" where
  "chain_theta t E = arccos (1 - E / (2 * t))"

section \<open>Current conservation\<close>

text \<open>
  The velocity formula as a sesquilinear form on mode bundles: the entry \<open>(a, b)\<close> of
  \<open>i (\<Phi>\<^sub>1\<^sup>\<dagger> V\<^sup>\<dagger> \<Phi>\<^sub>2 \<Lambda>\<^sub>2 - \<Lambda>\<^sub>1\<^sup>\<dagger> \<Phi>\<^sub>1\<^sup>\<dagger> V \<Phi>\<^sub>2)\<close> is the current between mode \<open>a\<close> of the first bundle
  and mode \<open>b\<close> of the second; on the diagonal of a bundle of propagating modes it is the
  velocity \<open>i \<phi>\<^sup>\<dagger> (\<lambda> V\<^sup>\<dagger> - \<lambda>\<^sup>-\<^sup>1 V) \<phi>\<close>.
\<close>

definition current_form ::
    "('n::finite, 'n) cmat \<Rightarrow> ('n, 'a::finite) cmat \<Rightarrow> ('a, 'a) cmat
       \<Rightarrow> ('n, 'b::finite) cmat \<Rightarrow> ('b, 'b) cmat \<Rightarrow> ('a, 'b) cmat" where
  "current_form V Phi1 Lam1 Phi2 Lam2 =
     msmult \<i> (madd (mm (dagger Phi1) (mm (dagger V) (mm Phi2 Lam2)))
                    (msmult (- 1) (mm (dagger Lam1) (mm (dagger Phi1) (mm V Phi2)))))"

text \<open>
  The current matrix of a normalised outgoing bundle: 1 on the diagonal at the propagating
  modes (the range of \<open>sel\<close>), 0 at the evanescent modes and off the diagonal.
\<close>

definition channel_signature :: "('p \<Rightarrow> 'o) \<Rightarrow> ('o, 'o) cmat" where
  "channel_signature sel = (\<lambda>a b. if a = b \<and> a \<in> range sel then 1 else 0)"

text \<open>A diagonal matrix of eigenvalues and a column of a bundle.\<close>

definition cdiag :: "('a \<Rightarrow> complex) \<Rightarrow> ('a, 'a) cmat" where
  "cdiag lam = (\<lambda>a b. if a = b then lam a else 0)"

definition col :: "('n, 'a) cmat \<Rightarrow> 'a \<Rightarrow> 'n cvec" where
  "col Phi a = (\<lambda>i. Phi i a)"

subsection \<open>A chain with unit hopping\<close>

text \<open>One site per cell: \<open>wire_one\<close> is the matrix \<open>[1]\<close>.\<close>

definition wire_one :: "(unit, unit) cmat" where
  "wire_one = (\<lambda>i j. 1)"

subsection \<open>A ladder with degenerate modes\<close>

text \<open>
  A lead with two sites per cell, \<open>H = 2\<close> and \<open>V = [[1/2, 1/4], [1/4, 1/2]]\<close>, at \<open>E = 2\<close>:
  every vector is an outgoing mode for \<open>\<lambda> = - i\<close>, with velocity \<open>2 \<phi>\<^sup>\<dagger> V \<phi>\<close>, and an incoming
  mode for \<open>\<lambda> = i\<close>. The bundles hold the two unit vectors, which are orthonormal and of
  unit velocity. The scattering region has two sites, \<open>H\<^sub>s = diag (2, 5/2)\<close>, each attached
  to one site of the cell. The index \<open>False\<close> is the first site or mode.
\<close>

definition lad_H :: "(bool, bool) cmat" where
  "lad_H = (\<lambda>i j. if i = j then 2 else 0)"

definition lad_V :: "(bool, bool) cmat" where
  "lad_V = (\<lambda>i j. if i = j then 1 / 2 else 1 / 4)"

definition lad_Vinv :: "(bool, bool) cmat" where
  "lad_Vinv = (\<lambda>i j. if i = j then 8 / 3 else - 4 / 3)"

definition lad_Hs :: "(bool, bool) cmat" where
  "lad_Hs = (\<lambda>i j. if i = j then (if i then 5 / 2 else 2) else 0)"

definition lad_one :: "(bool, bool) cmat" where
  "lad_one = (\<lambda>i j. if i = j then 1 else 0)"

definition lad_out :: "bool \<Rightarrow> complex" where
  "lad_out = (\<lambda>a. - \<i>)"

definition lad_in :: "bool \<Rightarrow> complex" where
  "lad_in = (\<lambda>c. \<i>)"

definition lad_Q :: "(bool, bool) cmat" where
  "lad_Q = (\<lambda>a c. if c then (if a then - (7 + 24 * \<i>) / 25 else (16 + 12 * \<i>) / 25)
     else (if a then 0 else 1))"

definition lad_Psi :: "(bool, bool) cmat" where
  "lad_Psi = (\<lambda>i c. if c then (if i then (18 - 24 * \<i>) / 25 else (16 + 12 * \<i>) / 25)
     else (if i then 0 else 2))"

subsection \<open>A chain next to a closed chain\<close>

text \<open>
  A lead of two decoupled chains with \<open>V = 1/2\<close> at \<open>E = 2\<close>: the first, with \<open>H = 2\<close>, has
  the outgoing mode \<open>\<lambda> = - i\<close> and the incoming mode \<open>\<lambda> = i\<close>; the second, with \<open>H = 3/4\<close>,
  is outside its band and has the decaying mode \<open>\<lambda> = 1/2\<close>.
\<close>

definition ev_H :: "(bool, bool) cmat" where
  "ev_H = (\<lambda>i j. if i = j then (if i then 3 / 4 else 2) else 0)"

definition ev_V :: "(bool, bool) cmat" where
  "ev_V = (\<lambda>i j. if i = j then 1 / 2 else 0)"

definition ev_in :: "unit \<Rightarrow> complex" where
  "ev_in = (\<lambda>c. \<i>)"

text \<open>
  The mode problem of a bundle: \<open>V \<Phi> + (H - E) \<Phi> \<Lambda> + V\<^sup>\<dagger> \<Phi> \<Lambda>\<^sup>2 = 0\<close>. For a diagonal \<open>\<Lambda>\<close> this is
  the quadratic relation of every column; for Schur vectors, which span an invariant
  subspace of the linearised problem, \<open>\<Lambda>\<close> is triangular.
\<close>

definition bundle_residual ::
    "('n::finite, 'n) cmat \<Rightarrow> ('n, 'n) cmat \<Rightarrow> real \<Rightarrow> ('a::finite, 'a) cmat \<Rightarrow> ('n, 'a) cmat
       \<Rightarrow> ('n, 'a) cmat" where
  "bundle_residual H V E Lam Phi =
     madd (mm V Phi) (madd (mm (shiftE H E) (mm Phi Lam)) (mm (dagger V) (mm Phi (mm Lam Lam))))"

subsection \<open>A chain next to two closed chains, with Schur vectors\<close>

text \<open>
  A lead of three decoupled chains with \<open>V = 1/2\<close> at \<open>E = 2\<close>, indexed by \<open>None\<close>,
  \<open>Some False\<close> and \<open>Some True\<close>: the first, with \<open>H = 2\<close>, has the outgoing mode \<open>\<lambda> = - i\<close> and the
  incoming mode \<open>\<lambda> = i\<close>; the others, with \<open>H = 3/4\<close> and \<open>H = 13/4\<close>, have the decaying modes
  \<open>\<lambda> = 1/2\<close> and \<open>\<lambda> = - 1/2\<close>. The evanescent columns of the outgoing bundle are the Schur
  vectors \<open>e\<^sub>1\<close> and \<open>e\<^sub>1 + e\<^sub>2\<close> of the decaying subspace, with the triangular block
  \<open>[[1/2, 1], [0, - 1/2]]\<close> of \<open>\<Lambda>\<^sub>+\<close>. The scattering region has three sites,
  \<open>H\<^sub>s = [[7/2, 1, 0], [1, 15/4, 1], [0, 1, 13/4]]\<close>, each attached to one chain.
\<close>

definition sch_H :: "(bool option, bool option) cmat" where
  "sch_H = (\<lambda>i j. if i = j then (case i of None \<Rightarrow> 2 | Some False \<Rightarrow> 3 / 4 | Some True \<Rightarrow> 13 / 4)
     else 0)"

definition sch_V :: "(bool option, bool option) cmat" where
  "sch_V = (\<lambda>i j. if i = j then 1 / 2 else 0)"

definition sch_Hs :: "(bool option, bool option) cmat" where
  "sch_Hs = (\<lambda>i j. if i = j then (case i of None \<Rightarrow> 7 / 2 | Some False \<Rightarrow> 15 / 4 | Some True \<Rightarrow> 13 / 4)
     else if i = Some False \<or> j = Some False then 1 else 0)"

definition sch_Phip :: "(bool option, bool option) cmat" where
  "sch_Phip = (\<lambda>i a. if i = a \<or> i = Some False \<and> a = Some True then 1 else 0)"

definition sch_Lamp :: "(bool option, bool option) cmat" where
  "sch_Lamp = (\<lambda>a b. if a = b then (case a of None \<Rightarrow> - \<i> | Some False \<Rightarrow> 1 / 2 | Some True \<Rightarrow> - 1 / 2)
     else if a = Some False \<and> b = Some True then 1 else 0)"

definition sch_Phim :: "(bool option, unit) cmat" where
  "sch_Phim = (\<lambda>i c. if i = None then 1 else 0)"

definition sch_sel :: "unit \<Rightarrow> bool option" where
  "sch_sel = (\<lambda>p. None)"

definition sch_rk :: "bool option \<Rightarrow> nat" where
  "sch_rk = (\<lambda>a. if a = Some True then 1 else 0)"

definition sch_Q :: "(bool option, unit) cmat" where
  "sch_Q = (\<lambda>a c. case a of None \<Rightarrow> - \<i> | Some False \<Rightarrow> - 2 + 2 * \<i> | Some True \<Rightarrow> 1 - \<i>)"

definition sch_Psi :: "(bool option, unit) cmat" where
  "sch_Psi = (\<lambda>i c. case i of None \<Rightarrow> 1 - \<i> | Some False \<Rightarrow> - 1 + \<i> | Some True \<Rightarrow> 1 - \<i>)"

section \<open>The scattering solver\<close>

text \<open>
  The solver of the scattering problem is Kwant code that the slides only link to. Its
  linear solve and its assembly of the block matrix are modelled from the spec; the linear
  systems they are compared with are those of the slides.

  A linear system is a list of equations, each a coefficient per unknown and a right-hand
  side per column.
\<close>

type_synonym ('u, 'c) equation = "('u \<Rightarrow> complex) \<times> ('c \<Rightarrow> complex)"

text \<open>
  Modelled from the spec: a step of the direct solve (a factorisation shared by all
  right-hand side columns). The multiple of the pivot equation that removes the unknown
  \<open>u\<close> is subtracted from an equation, in the coefficients and in every column.
\<close>

definition eliminate :: "'u \<Rightarrow> ('u, 'c) equation \<Rightarrow> ('u, 'c) equation \<Rightarrow> ('u, 'c) equation" where
  "eliminate u piv eq =
     (\<lambda>k. fst eq k - fst eq u / fst piv u * fst piv k,
      \<lambda>c. snd eq c - fst eq u / fst piv u * snd piv c)"

text \<open>
  Modelled from the spec: back substitution in the direct solve. The unknown \<open>u\<close> is found
  from the pivot equation and the values of the unknowns \<open>us\<close> that were eliminated after
  it.
\<close>

definition back_substitute ::
    "'u \<Rightarrow> 'u list \<Rightarrow> ('u, 'c) equation \<Rightarrow> ('u \<Rightarrow> 'c \<Rightarrow> complex) \<Rightarrow> 'u \<Rightarrow> 'c \<Rightarrow> complex" where
  "back_substitute u us piv x =
     x(u := (\<lambda>c. (snd piv c - (\<Sum>k\<leftarrow>us. fst piv k * x k c)) / fst piv u))"

text \<open>
  Modelled from the spec: the direct linear solve of the assembler (an LU factorisation or
  equivalent, not a matrix inversion). The unknowns are eliminated in the order of the
  list \<open>us\<close>, for all columns \<open>cs\<close> at once: the pivot is the first equation with a non-zero
  coefficient at the unknown. Without a pivot the matrix is singular and there is no
  result; when no unknown is left, every remaining right-hand side must be zero.
\<close>

fun direct_solve ::
    "'c list \<Rightarrow> 'u list \<Rightarrow> ('u, 'c) equation list \<Rightarrow> ('u \<Rightarrow> 'c \<Rightarrow> complex) option" where
  "direct_solve cs [] eqs =
     (if list_all (\<lambda>eq. list_all (\<lambda>c. snd eq c = 0) cs) eqs then Some (\<lambda>u c. 0) else None)"
| "direct_solve cs (u # us) eqs =
     (case find (\<lambda>eq. fst eq u \<noteq> 0) eqs of
        None \<Rightarrow> None
      | Some piv \<Rightarrow>
          map_option (back_substitute u us piv) (direct_solve cs us (map (eliminate u piv) eqs)))"

text \<open>
  The linear system of one incoming mode, for the amplitudes \<open>q\<close> of the outgoing modes and
  the wavefunction \<open>\<psi>\<close> in the scattering region; the systems of all incoming modes are
  stacked in \<open>unstabilized_system\<close> and \<open>stabilized_system\<close>. The bundle matrices enter
  through their products with \<open>q\<close>: \<open>xiq = \<Phi>\<^sub>+ \<Lambda>\<^sub>+ q\<close>, \<open>phiq = \<Phi>\<^sub>+ q\<close>, and the incoming mode
  through \<open>xim = \<lambda> \<phi>\<close>, \<open>phim = \<phi>\<close>; in the stabilised system these are the vectors in the
  basis of the hopping decomposition, \<open>\<Xi>'\<^sub>+ q\<close>, \<open>\<Phi>'\<^sub>+ q\<close>, \<open>\<xi>'\<close> and \<open>\<phi>'\<close>.
\<close>

definition unstabilized_rows ::
    "('s::finite, 's) cmat \<Rightarrow> real \<Rightarrow> ('n::finite, 's) cmat \<Rightarrow> ('n, 'n) cmat
       \<Rightarrow> 'n cvec \<Rightarrow> 'n cvec \<Rightarrow> 'n cvec \<Rightarrow> 'n cvec \<Rightarrow> 's cvec \<Rightarrow> bool" where
  "unstabilized_rows Hs E P V xiq phiq xim phim psi \<longleftrightarrow>
     vadd (mv (shiftE Hs E) psi) (mv (mtranspose P) (mv (dagger V) xiq))
       = smult (- 1) (mv (mtranspose P) (mv (dagger V) xim))
     \<and> vadd (mv (mm V P) psi) (smult (- 1) (mv V phiq)) = mv V phim"

definition stabilized_rows ::
    "('s::finite, 's) cmat \<Rightarrow> real \<Rightarrow> ('n::finite, 's) cmat \<Rightarrow> ('n, 'r::finite) cmat
       \<Rightarrow> 'r cvec \<Rightarrow> 'r cvec \<Rightarrow> 'r cvec \<Rightarrow> 'r cvec \<Rightarrow> 's cvec \<Rightarrow> bool" where
  "stabilized_rows Hs E P B xiq phiq xim phim psi \<longleftrightarrow>
     vadd (mv (shiftE Hs E) psi) (mv (mtranspose P) (mv B xiq))
       = smult (- 1) (mv (mtranspose P) (mv B xim))
     \<and> vadd (mv (mm (dagger B) P) psi) (smult (- 1) phiq) = phim"

text \<open>
  A bundle given as the list of its columns: \<open>mode_comb q xs\<close> is the product of the matrix
  with the columns \<open>xs\<close> and the amplitudes \<open>q\<close>.
\<close>

definition mode_comb :: "(nat \<Rightarrow> complex) \<Rightarrow> 'r cvec list \<Rightarrow> 'r cvec" where
  "mode_comb q xs = (\<lambda>r. \<Sum>k\<leftarrow>[0 ..< length xs]. q k * (xs ! k) r)"

text \<open>
  Modelled from the spec: the failure of \<open>solve_scattering\<close>, reported when the block matrix
  is singular.
\<close>

datatype solver_error = SingularAssemblyMatrix

text \<open>
  The mode bundle as the assembler receives it: an outgoing mode is given by its
  classification (propagating or not) and its vectors \<open>\<phi>'\<close> and \<open>\<xi>'\<close> in the basis of the
  hopping decomposition, an incoming propagating mode by \<open>\<phi>'\<close> and \<open>\<xi>'\<close>. Several leads are
  one lead whose cell is the direct sum of their cells.
\<close>

type_synonym 'r out_mode = "bool \<times> 'r cvec \<times> 'r cvec"
type_synonym 'r in_mode = "'r cvec \<times> 'r cvec"

text \<open>
  Modelled from the spec: the entries of the block matrix
  \<open>[[H\<^sub>s - E, P\<^sup>T B \<Xi>'\<^sub>+], [B\<^sup>\<dagger> P, - \<Phi>'\<^sub>+]]\<close> of the assembler. The rows are the sites of the
  scattering region and the indices of the hopping decomposition, the columns the sites
  and the positions of the outgoing modes.
\<close>

definition block_matrix ::
    "('s, 's) cmat \<Rightarrow> real \<Rightarrow> ('n::finite, 's) cmat \<Rightarrow> ('n, 'r::finite) cmat
       \<Rightarrow> 'r out_mode list \<Rightarrow> 's + 'r \<Rightarrow> 's + nat \<Rightarrow> complex" where
  "block_matrix Hs E P B outs row =
     (case row of
        Inl i \<Rightarrow>
          case_sum (\<lambda>j. Hs i j - (if i = j then complex_of_real E else 0))
            (\<lambda>k. \<Sum>n\<in>UNIV. P n i * (\<Sum>r\<in>UNIV. B n r * snd (snd (outs ! k)) r))
      | Inr r \<Rightarrow>
          case_sum (\<lambda>j. \<Sum>n\<in>UNIV. cnj (B n r) * P n j) (\<lambda>k. - fst (snd (outs ! k)) r))"

text \<open>
  Modelled from the spec: the entries of the right-hand side \<open>[- P\<^sup>T B \<Xi>'\<^sub>p\<^sub>-, \<Phi>'\<^sub>p\<^sub>-]\<close> of the
  assembler, with one column per incoming propagating mode.
\<close>

definition right_hand_side ::
    "('n::finite, 's) cmat \<Rightarrow> ('n, 'r::finite) cmat \<Rightarrow> 'r in_mode list \<Rightarrow> 's + 'r \<Rightarrow> nat \<Rightarrow> complex" where
  "right_hand_side P B ins row =
     (case row of
        Inl i \<Rightarrow> (\<lambda>c. - (\<Sum>n\<in>UNIV. P n i * (\<Sum>r\<in>UNIV. B n r * snd (ins ! c) r)))
      | Inr r \<Rightarrow> (\<lambda>c. fst (ins ! c) r))"

text \<open>
  Modelled from the spec: the linear system of the assembler, one equation per row of the
  block matrix.
\<close>

definition assemble ::
    "('s::enum, 's) cmat \<Rightarrow> real \<Rightarrow> ('n::finite, 's) cmat \<Rightarrow> ('n, 'r::enum) cmat
       \<Rightarrow> 'r out_mode list \<Rightarrow> 'r in_mode list \<Rightarrow> ('s + nat, nat) equation list" where
  "assemble Hs E P B outs ins =
     map (\<lambda>row. (block_matrix Hs E P B outs row, right_hand_side P B ins row))
       (map Inl Enum.enum @ map Inr Enum.enum)"

text \<open>
  Modelled from the spec: the unknowns of the assembler, the wavefunction at every site
  and the amplitude of every outgoing mode.
\<close>

definition unknowns :: "'r out_mode list \<Rightarrow> ('s::enum + nat) list" where
  "unknowns outs = map Inl Enum.enum @ map Inr [0 ..< length outs]"

text \<open>
  Modelled from the spec: the outgoing channels, the positions of the propagating modes
  in the outgoing bundle.
\<close>

definition out_channels :: "'r out_mode list \<Rightarrow> nat list" where
  "out_channels outs = filter (\<lambda>k. fst (outs ! k)) [0 ..< length outs]"

text \<open>
  Modelled from the spec: the scattering assembler \<open>solve_scattering\<close>. It solves the
  assembled system for all right-hand side columns by one elimination and reports
  \<open>SingularAssemblyMatrix\<close> if the matrix is singular. The result is \<open>\<Psi>\<^sub>s\<close>, \<open>Q\<^sub>+\<close> and \<open>S\<close>, the
  rows of \<open>Q\<^sub>+\<close> of the propagating outgoing modes.
\<close>

definition solve_scattering ::
    "('s::enum, 's) cmat \<Rightarrow> real \<Rightarrow> ('n::finite, 's) cmat \<Rightarrow> ('n, 'r::enum) cmat
       \<Rightarrow> 'r out_mode list \<Rightarrow> 'r in_mode list
       \<Rightarrow> solver_error + ('s \<Rightarrow> nat \<Rightarrow> complex) \<times> (nat \<Rightarrow> nat \<Rightarrow> complex) \<times> complex list list" where
  "solve_scattering Hs E P B outs ins =
     (case direct_solve [0 ..< length ins] (unknowns outs) (assemble Hs E P B outs ins) of
        None \<Rightarrow> Inl SingularAssemblyMatrix
      | Some x \<Rightarrow>
          Inr (\<lambda>i c. x (Inl i) c, \<lambda>k c. x (Inr k) c,
               smatrix_rows (\<lambda>k c. x (Inr k) c) (out_channels outs) [0 ..< length ins]))"

text \<open>
  The vectors of a mode in the basis of the hopping decomposition, \<open>\<phi>' = B\<^sup>\<dagger> \<phi>\<close> and
  \<open>\<xi>' = A\<^sup>\<dagger> \<xi>\<close>, where \<open>\<xi>\<close> is the column of \<open>\<Phi> \<Lambda>\<close> (\<open>\<lambda> \<phi>\<close> for an eigenvector).
\<close>

definition stabilize_in ::
    "('n::finite, 'r) cmat \<Rightarrow> ('n, 'r) cmat \<Rightarrow> 'n cvec \<times> 'n cvec \<Rightarrow> 'r in_mode" where
  "stabilize_in A B m = (mv (dagger B) (fst m), mv (dagger A) (snd m))"

definition stabilize_out ::
    "('n::finite, 'r) cmat \<Rightarrow> ('n, 'r) cmat \<Rightarrow> bool \<times> 'n cvec \<times> 'n cvec \<Rightarrow> 'r out_mode" where
  "stabilize_out A B m = (fst m, stabilize_in A B (snd m))"

subsection \<open>A two-site region attached to a chain and a closed chain\<close>

text \<open>
  The lead of two decoupled chains (\<open>ev_H\<close>, \<open>ev_V\<close>) at \<open>E = 2\<close> with the factors \<open>A = V\<close>,
  \<open>B = 1\<close>. The region has the sites \<open>False\<close> and \<open>True\<close> with \<open>H\<^sub>s = diag (3, 11/4)\<close>; the
  first chain is attached to both sites, the second to the site \<open>True\<close>, so the coupling
  \<open>P = [[1, 1], [0, 1]]\<close> is not symmetric. The modes are given by the propagating flag,
  \<open>\<phi>\<close> and \<open>\<xi> = \<lambda> \<phi>\<close>.
\<close>

definition tee_Hs :: "(bool, bool) cmat" where
  "tee_Hs = (\<lambda>i j. if i = j then (if i then 11 / 4 else 3) else 0)"

definition tee_P :: "(bool, bool) cmat" where
  "tee_P = (\<lambda>n j. if n \<and> \<not> j then 0 else 1)"

definition tee_outs :: "(bool \<times> bool cvec \<times> bool cvec) list" where
  "tee_outs = [(True, \<lambda>n. if n then 0 else 1, \<lambda>n. if n then 0 else - \<i>),
               (False, \<lambda>n. if n then 1 else 0, \<lambda>n. if n then 1 / 2 else 0)]"

definition tee_ins :: "(bool cvec \<times> bool cvec) list" where
  "tee_ins = [(\<lambda>n. if n then 0 else 1, \<lambda>n. if n then 0 else \<i>)]"

section \<open>Failure of the mode solver\<close>

text \<open>
  Modelled from the spec: the failure of \<open>solve_modes\<close>, reported when the shifted operator
  is singular.
\<close>

datatype lead_error = SingularLeadError

text \<open>
  Modelled from the spec: the inversion of the shifted operator
  \<open>H - E + i A A\<^sup>\<dagger> + i B B\<^sup>\<dagger>\<close> in \<open>solve_modes\<close>, which is Kwant code outside the repository.
  It is inverted by the direct solve, with the columns of the identity as right-hand
  sides; there is no result if it is singular.
\<close>

definition shifted_inverse ::
    "('n::enum, 'n) cmat \<Rightarrow> real \<Rightarrow> ('n, 'r::finite) cmat \<Rightarrow> ('n, 'r) cmat \<Rightarrow> ('n, 'n) cmat option" where
  "shifted_inverse H E A B =
     direct_solve Enum.enum Enum.enum
       (map (\<lambda>i. (Hbar H E A B i, \<lambda>c. if i = c then 1 else 0)) Enum.enum)"

text \<open>
  Modelled from the spec: the first step of \<open>solve_modes\<close> on the singular path. The hopping
  matrix is given by its singular value decomposition; the result is the pair of block
  matrices of the stabilised eigenproblem, or \<open>SingularLeadError\<close> if the shifted operator
  is singular.
\<close>

definition stabilized_problem ::
    "('n::enum, 'n) cmat \<Rightarrow> real \<Rightarrow> ('n, 'r::finite) cmat \<Rightarrow> ('r \<Rightarrow> real) \<Rightarrow> ('n, 'r) cmat
       \<Rightarrow> lead_error + ('r, 'r) bmat \<times> ('r, 'r) bmat" where
  "stabilized_problem H E U s W =
     (case shifted_inverse H E (hop_A_sing U s) (hop_B_sing W s) of
        None \<Rightarrow> Inl SingularLeadError
      | Some G \<Rightarrow>
          Inr (sing_lhs (hop_A_sing U s) (hop_B_sing W s) G,
               sing_rhs (hop_A_sing U s) (hop_B_sing W s) G))"

subsection \<open>Disconnected cells\<close>

text \<open>
  One site per cell with \<open>H = [1]\<close> and \<open>V = 0\<close>, decomposed as \<open>V = U S W\<^sup>\<dagger>\<close> with \<open>U = W = 1\<close>
  and the singular value 0; a scattering region of one site with \<open>H\<^sub>s = [1]\<close>. At \<open>E = 1\<close> the
  cells have a level at the energy, at \<open>E = 0\<close> they have none. \<open>flat_phi\<close> is the unit
  wavefunction and \<open>flat_out\<close> the decaying mode \<open>\<lambda> = 0\<close>. \<open>flat_stab\<close> is this mode as an
  outgoing evanescent mode of the stabilised eigenproblem, \<open>(\<phi>', \<xi>') = (1, 0)\<close>, which the
  right-hand block matrix annihilates.
\<close>

definition flat_H :: "(unit, unit) cmat" where
  "flat_H = (\<lambda>i j. 1)"

definition flat_U :: "(unit, unit) cmat" where
  "flat_U = (\<lambda>i k. 1)"

definition flat_s :: "unit \<Rightarrow> real" where
  "flat_s = (\<lambda>k. 0)"

definition flat_phi :: "unit cvec" where
  "flat_phi = (\<lambda>i. 1)"

definition flat_out :: "(complex \<times> unit cvec) list" where
  "flat_out = [(0, flat_phi)]"

definition flat_stab :: "(bool \<times> unit cvec \<times> unit cvec) list" where
  "flat_stab = [(False, flat_phi, vzero)]"
section \<open>Algebra of the matrix operations\<close>

lemma vadd_vzero [simp]: "vadd x vzero = x" "vadd vzero x = x"
  by (simp_all add: vadd_def vzero_def)

lemma smult_vzero [simp]: "smult c vzero = vzero"
  by (simp add: smult_def vzero_def)

lemma smult_smult [simp]: "smult a (smult b x) = smult (a * b) x"
  by (simp add: smult_def mult.assoc)

lemma smult_one [simp]: "smult 1 x = x"
  by (simp add: smult_def)

lemma smult_vadd: "smult c (vadd x y) = vadd (smult c x) (smult c y)"
  by (simp add: smult_def vadd_def distrib_left)

lemma mv_vzero [simp]: "mv A vzero = vzero"
  by (simp add: mv_def vzero_def)

lemma mv_mzero [simp]: "mv mzero x = vzero"
  by (simp add: mv_def mzero_def vzero_def)

lemma mv_mone [simp]: "mv mone x = x"
  by (simp add: mv_def mone_def fun_eq_iff if_distrib [of "\<lambda>c. c * _"] sum.delta cong: if_cong)

lemma mv_vadd: "mv A (vadd x y) = vadd (mv A x) (mv A y)"
  by (simp add: mv_def vadd_def distrib_left sum.distrib)

lemma mv_smult: "mv A (smult c x) = smult c (mv A x)"
  by (simp add: mv_def smult_def sum_distrib_left mult_ac)

lemma mv_madd: "mv (madd A B) x = vadd (mv A x) (mv B x)"
  by (simp add: mv_def madd_def vadd_def distrib_right sum.distrib)

lemma mv_msmult: "mv (msmult c A) x = smult c (mv A x)"
  by (simp add: mv_def msmult_def smult_def sum_distrib_left mult_ac)

lemma mv_mm: "mv (mm A B) x = mv A (mv B x)"
proof
  fix i
  have "mv (mm A B) x i = (\<Sum>j\<in>UNIV. \<Sum>k\<in>UNIV. A i k * B k j * x j)"
    by (simp add: mv_def mm_def sum_distrib_right)
  also have "\<dots> = (\<Sum>k\<in>UNIV. \<Sum>j\<in>UNIV. A i k * B k j * x j)"
    by (rule sum.swap)
  also have "\<dots> = mv A (mv B x) i"
    by (simp add: mv_def sum_distrib_left mult.assoc)
  finally show "mv (mm A B) x i = mv A (mv B x) i" .
qed

lemma smult_eq_iff: "c \<noteq> 0 \<Longrightarrow> smult c x = smult c y \<longleftrightarrow> x = y"
  by (simp add: smult_def fun_eq_iff)

lemma smult_eq_vzero_iff: "c \<noteq> 0 \<Longrightarrow> smult c x = vzero \<longleftrightarrow> x = vzero"
  by (simp add: smult_def vzero_def fun_eq_iff)

section \<open>Linearisation of the quadratic eigenvalue problem\<close>

lemma gevp_holds_iff:
  "gevp_holds H V E lam (phi, xi) \<longleftrightarrow>
     vadd (mv (shiftE H E) phi) (mv (dagger V) xi) = smult (inverse lam) (smult (- 1) (mv V phi))
     \<and> phi = smult (inverse lam) xi"
  by (simp add: gevp_holds_def gevp_lhs_def gevp_rhs_def mv_msmult)

lemma gevp_second_component:
  assumes "lam \<noteq> 0" and "gevp_holds H V E lam (phi, xi)"
  shows "xi = smult lam phi"
proof -
  from assms(2) have "phi = smult (inverse lam) xi"
    by (simp add: gevp_holds_iff)
  then have "smult lam phi = smult (lam * inverse lam) xi"
    by (metis smult_smult)
  with assms(1) show ?thesis by simp
qed

lemma gevp_first_row_iff:
  assumes "lam \<noteq> 0"
  shows "vadd (mv (shiftE H E) phi) (mv (dagger V) (smult lam phi))
           = smult (inverse lam) (smult (- 1) (mv V phi))
         \<longleftrightarrow> quad_residual H V E lam phi = vzero"
proof -
  have "quad_residual H V E lam phi i = 0 \<longleftrightarrow>
        (vadd (mv (shiftE H E) phi) (mv (dagger V) (smult lam phi))) i
          = (smult (inverse lam) (smult (- 1) (mv V phi))) i" for i
    using assms unfolding mv_smult
    by (simp add: quad_residual_def vadd_def smult_def power2_eq_square
        field_simps add_eq_0_iff)
  then show ?thesis
    by (auto simp add: fun_eq_iff vzero_def)
qed

lemma gevp_quadratic:
  assumes l: "lam \<noteq> 0" and g: "gevp_holds H V E lam (phi, xi)"
  shows "quad_residual H V E lam phi = vzero"
proof -
  have xi: "xi = smult lam phi" using l g by (rule gevp_second_component)
  from g have "vadd (mv (shiftE H E) phi) (mv (dagger V) (smult lam phi))
      = smult (inverse lam) (smult (- 1) (mv V phi))"
    unfolding xi gevp_holds_iff by blast
  then show ?thesis using gevp_first_row_iff [OF l] by blast
qed

text \<open>
  C10. For \<open>\<lambda> \<noteq> 0\<close> the pair \<open>(\<phi>, \<lambda> \<phi>)\<close> solves the block generalized eigenvalue
  problem exactly when \<open>(\<lambda>, \<phi>)\<close> satisfies the quadratic relation, and every solution of
  the block problem has second component \<open>\<lambda>\<close> times its first.
\<close>

theorem linearization_equivalence:
  "lam \<noteq> 0 \<Longrightarrow>
     (gevp_holds H V E lam (phi, smult lam phi) \<longleftrightarrow> quad_residual H V E lam phi = vzero)
     \<and> (\<forall>xi. gevp_holds H V E lam (phi, xi) \<longrightarrow> xi = smult lam phi)"
proof (intro conjI allI impI)
  assume l: "lam \<noteq> 0"
  then have "phi = smult (inverse lam) (smult lam phi)" by simp
  then show "gevp_holds H V E lam (phi, smult lam phi) \<longleftrightarrow> quad_residual H V E lam phi = vzero"
    using gevp_first_row_iff [OF l, of H E phi V] by (simp only: gevp_holds_iff) blast
next
  fix xi
  assume "lam \<noteq> 0" and "gevp_holds H V E lam (phi, xi)"
  then show "xi = smult lam phi" by (rule gevp_second_component)
qed

theorem linearization_equivalence_witness:
  "(\<i> \<noteq> 0)
   \<and> gevp_holds (\<lambda>(i::unit) (j::unit). 2) (\<lambda>i j. 1) 2 \<i> (\<lambda>i. 1, smult \<i> (\<lambda>i. 1))
   \<and> quad_residual (\<lambda>(i::unit) (j::unit). 2) (\<lambda>i j. 1) 2 \<i> (\<lambda>i. 1) = vzero"
proof -
  have q: "quad_residual (\<lambda>(i::unit) (j::unit). 2) (\<lambda>i j. 1) 2 \<i> (\<lambda>i. 1) = vzero"
    by (simp add: quad_residual_def vadd_def smult_def mv_def dagger_def shiftE_def vzero_def
        fun_eq_iff)
  have l: "\<i> \<noteq> 0" by simp
  from linearization_equivalence [OF l, of "\<lambda>(i::unit) (j::unit). 2" "\<lambda>i j. 1" 2 "\<lambda>i. 1"] q l
  show ?thesis by blast
qed

subsection \<open>Bloch waves\<close>

lemma bloch_row_reduces:
  assumes "lam \<noteq> 0"
  shows "lead_row H V E (bloch_wave lam phi) n
         = smult (power_int lam (n - 1)) (quad_residual H V E lam phi)"
proof -
  have a: "power_int lam n = power_int lam (n - 1) * lam"
    using assms power_int_add [of lam "n - 1" 1] by simp
  have "power_int lam (n + 1) = power_int lam n * lam"
    using assms by (simp add: power_int_add_1)
  then have b: "power_int lam (n + 1) = power_int lam (n - 1) * lam\<^sup>2"
    by (simp add: a power2_eq_square)
  show ?thesis
    unfolding lead_row_def bloch_wave_def quad_residual_def mv_smult a b
    by (simp add: vadd_def smult_def fun_eq_iff algebra_simps)
qed

lemma bloch_wave_solves_lead:
  assumes "lam \<noteq> 0"
  shows "(\<forall>n. lead_row H V E (bloch_wave lam phi) n = vzero)
         \<longleftrightarrow> quad_residual H V E lam phi = vzero"
proof
  assume "\<forall>n. lead_row H V E (bloch_wave lam phi) n = vzero"
  then have "lead_row H V E (bloch_wave lam phi) 1 = vzero" by blast
  then show "quad_residual H V E lam phi = vzero"
    by (simp add: bloch_row_reduces [OF assms])
next
  assume "quad_residual H V E lam phi = vzero"
  then show "\<forall>n. lead_row H V E (bloch_wave lam phi) n = vzero"
    by (simp add: bloch_row_reduces [OF assms])
qed

section \<open>The non-singular path\<close>

lemma dagger_dagger [simp]: "dagger (dagger A) = A"
  by (simp add: dagger_def)

lemma dagger_mm: "dagger (mm A B) = mm (dagger B) (dagger A)"
  by (simp add: dagger_def mm_def mult.commute)

lemma dagger_msmult: "dagger (msmult c A) = msmult (cnj c) (dagger A)"
  by (simp add: dagger_def msmult_def)

lemma dagger_mone [simp]: "dagger mone = mone"
  by (auto simp add: dagger_def mone_def fun_eq_iff)

lemma quad_scalar:
  fixes v :: complex
  assumes "lam \<noteq> 0"
  shows "v + (lam * u + lam\<^sup>2 * w) = 0 \<longleftrightarrow> - 1 * (u + lam * w) = inverse lam * v"
proof -
  have "v + (lam * u + lam\<^sup>2 * w) = lam * (inverse lam * v + (u + lam * w))"
    using assms by (simp add: algebra_simps power2_eq_square)
  then show ?thesis using assms by (auto simp add: add_eq_0_iff2)
qed

lemma left_inverse_cancel:
  assumes "mm Ai A = mone"
  shows "mv Ai (mv A x) = x"
proof -
  have "mv Ai (mv A x) = mv (mm Ai A) x" by (simp only: mv_mm)
  then show ?thesis by (simp add: assms)
qed

lemma left_inverse_inject:
  assumes "mm Ai A = mone" and "mv A x = mv A y"
  shows "x = y"
proof -
  have "mv Ai (mv A x) = mv Ai (mv A y)" using assms(2) by (rule arg_cong)
  then show ?thesis by (simp only: left_inverse_cancel [OF assms(1)])
qed

lemma nonsing_row1:
  assumes V: "V = mm A (dagger B)"
    and A: "is_inverse A Ai" and l: "lam \<noteq> 0"
  shows "smult (- 1) (mv Ai (vadd (mv (shiftE H E) phi) (smult lam (mv (dagger V) phi))))
           = smult (inverse lam) (mv (dagger B) phi)
         \<longleftrightarrow> quad_residual H V E lam phi = vzero"
proof -
  let ?u = "mv (shiftE H E) phi" and ?w = "mv (dagger V) phi"
  let ?r = "vadd ?u (smult lam ?w)"
  have AiA: "mm Ai A = mone" and AAi: "mm A Ai = mone"
    using A by (simp_all add: is_inverse_def)
  have Vphi: "mv V phi = mv A (mv (dagger B) phi)"
    by (simp add: V mv_mm)
  have q: "quad_residual H V E lam phi = vzero \<longleftrightarrow> smult (- 1) ?r = smult (inverse lam) (mv V phi)"
  proof -
    have "quad_residual H V E lam phi i = 0
          \<longleftrightarrow> smult (- 1) ?r i = smult (inverse lam) (mv V phi) i" for i
      using quad_scalar [OF l, of "mv V phi i" "?u i" "?w i"]
      by (simp only: quad_residual_def vadd_def smult_def)
    then show ?thesis by (simp add: fun_eq_iff vzero_def)
  qed
  have "smult (- 1) (mv Ai ?r) = smult (inverse lam) (mv (dagger B) phi)
        \<longleftrightarrow> mv A (smult (- 1) (mv Ai ?r)) = mv A (smult (inverse lam) (mv (dagger B) phi))"
    (is "?P \<longleftrightarrow> ?Q")
  proof
    assume ?P then show ?Q by (rule arg_cong)
  next
    assume ?Q then show ?P by (rule left_inverse_inject [OF AiA])
  qed
  also have "mv A (smult (- 1) (mv Ai ?r)) = smult (- 1) ?r"
    by (simp add: mv_smult left_inverse_cancel [OF AAi])
  also have "mv A (smult (inverse lam) (mv (dagger B) phi)) = smult (inverse lam) (mv V phi)"
    by (simp add: mv_smult Vphi)
  finally show ?thesis using q by simp
qed

lemma nonsing_eig_iff:
  assumes V: "V = mm A (dagger B)"
    and A: "is_inverse A Ai" and B: "is_inverse (dagger B) Bdi" and l: "lam \<noteq> 0"
  shows "eig_holds (nonsing_matrix H E A Ai B Bdi) (inverse lam) (phibar B phi, xibar A (smult lam phi))
         \<longleftrightarrow> quad_residual H V E lam phi = vzero"
proof -
  have BdB: "mv Bdi (mv (dagger B) phi) = phi"
    using B by (simp add: is_inverse_def left_inverse_cancel)
  have dV: "dagger V = mm B (dagger A)"
    by (simp add: V dagger_mm)
  have r1: "vadd (mv (msmult (- 1) (mm Ai (mm (shiftE H E) Bdi))) (mv (dagger B) phi))
                 (mv (msmult (- 1) (mm Ai B)) (mv (dagger A) (smult lam phi)))
            = smult (- 1) (mv Ai (vadd (mv (shiftE H E) phi) (smult lam (mv (dagger V) phi))))"
    by (simp add: mv_msmult mv_mm BdB dV mv_smult mv_vadd smult_vadd)
  have r2: "vadd (mv (mm (dagger A) Bdi) (mv (dagger B) phi)) (mv mzero (mv (dagger A) (smult lam phi)))
            = smult (inverse lam) (mv (dagger A) (smult lam phi))"
    using l by (simp add: mv_mm BdB mv_smult)
  show ?thesis
    unfolding eig_holds_def nonsing_matrix_def phibar_def xibar_def bmv.simps bsmult.simps
      prod.inject r1 r2
    using nonsing_row1 [OF V A l, of H E phi] by simp
qed

lemma nonsing_eig_complete:
  assumes V: "V = mm A (dagger B)"
    and A: "is_inverse A Ai" and B: "is_inverse (dagger B) Bdi" and l: "lam \<noteq> 0"
    and e: "eig_holds (nonsing_matrix H E A Ai B Bdi) (inverse lam) (pb, xb)"
  shows "pb = phibar B (mv Bdi pb) \<and> xb = xibar A (smult lam (mv Bdi pb))"
proof -
  have BBd: "mv (dagger B) (mv Bdi pb) = pb"
    using B by (simp add: is_inverse_def left_inverse_cancel)
  from e have "vadd (mv (mm (dagger A) Bdi) pb) (mv mzero xb) = smult (inverse lam) xb"
    by (simp add: eig_holds_def nonsing_matrix_def)
  then have "smult lam (mv (dagger A) (mv Bdi pb)) = smult lam (smult (inverse lam) xb)"
    by (simp add: mv_mm)
  then have "xb = mv (dagger A) (smult lam (mv Bdi pb))"
    using l by (simp add: mv_smult)
  then show ?thesis by (simp add: phibar_def xibar_def BBd)
qed

lemma mm_mone_right [simp]: "mm A mone = A"
  by (simp add: mm_def mone_def fun_eq_iff if_distrib [of "\<lambda>c. _ * c"] sum.delta
      cong: if_cong)

lemma mm_mone_left [simp]: "mm mone A = A"
  by (simp add: mm_def mone_def fun_eq_iff if_distrib [of "\<lambda>c. c * _"] sum.delta
      cong: if_cong)

lemma mm_msmult_left: "mm (msmult c A) B = msmult c (mm A B)"
  by (simp add: mm_def msmult_def sum_distrib_left mult_ac)

lemma mm_msmult_right: "mm A (msmult c B) = msmult c (mm A B)"
  by (simp add: mm_def msmult_def sum_distrib_left mult_ac)

lemmas mm_msmult = mm_msmult_left mm_msmult_right

lemma msmult_msmult [simp]: "msmult a (msmult b A) = msmult (a * b) A"
  by (simp add: msmult_def mult.assoc)

lemma msmult_one [simp]: "msmult 1 A = A"
  by (simp add: msmult_def)

lemma nonsing_factorisation:
  assumes "0 < nv"
  shows "V = mm (hop_A_nonsing nv V) (dagger (hop_B_nonsing nv))"
  using assms by (simp add: hop_A_nonsing_def hop_B_nonsing_def dagger_msmult mm_msmult)

lemma nonsing_A_inverse:
  assumes "0 < nv" and "is_inverse V Vi"
  shows "is_inverse (hop_A_nonsing nv V) (hop_A_inv nv Vi)"
  using assms by (simp add: hop_A_nonsing_def hop_A_inv_def is_inverse_def mm_msmult)

lemma nonsing_B_inverse:
  assumes "0 < nv"
  shows "is_inverse (dagger (hop_B_nonsing nv)) (hop_Bdag_inv nv)"
  using assms by (simp add: hop_B_nonsing_def hop_Bdag_inv_def is_inverse_def mm_msmult dagger_msmult)

lemma nonsing_quadratic:
  assumes "is_inverse V Vi" and "0 < nv" and "lam \<noteq> 0"
    and e: "eig_holds (nonsing_problem H V E nv Vi) (inverse lam) (pb, xb)"
  shows "quad_residual H V E lam (mv (hop_Bdag_inv nv) pb) = vzero"
proof -
  note V = nonsing_factorisation [OF assms(2), of V]
  note A = nonsing_A_inverse [OF assms(2) assms(1)]
  note B = nonsing_B_inverse [OF assms(2)]
  let ?ph = "mv (hop_Bdag_inv nv) pb"
  from e have e': "eig_holds (nonsing_matrix H E (hop_A_nonsing nv V) (hop_A_inv nv Vi)
      (hop_B_nonsing nv) (hop_Bdag_inv nv)) (inverse lam) (pb, xb)"
    by (simp only: nonsing_problem_def)
  from nonsing_eig_complete [OF V A B assms(3) e']
  have c: "pb = phibar (hop_B_nonsing nv) ?ph"
       "xb = xibar (hop_A_nonsing nv V) (smult lam ?ph)" by blast+
  from e' c have "eig_holds (nonsing_matrix H E (hop_A_nonsing nv V) (hop_A_inv nv Vi)
      (hop_B_nonsing nv) (hop_Bdag_inv nv)) (inverse lam)
      (phibar (hop_B_nonsing nv) ?ph, xibar (hop_A_nonsing nv V) (smult lam ?ph))"
    by simp
  then show ?thesis
    by (simp only: nonsing_eig_iff [OF V A B assms(3)])
qed

text \<open>
  C3. On the non-singular path, with \<open>A = V / \<surd>\<parallel>V\<parallel>\<close> and \<open>B = \<surd>\<parallel>V\<parallel>\<close>, the standard
  eigenproblem with the block matrix
  \<open>[[-A\<^sup>-\<^sup>1 (H - E) (B\<^sup>\<dagger>)\<^sup>-\<^sup>1, -A\<^sup>-\<^sup>1 B], [A\<^sup>\<dagger> (B\<^sup>\<dagger>)\<^sup>-\<^sup>1, 0]]\<close> on
  \<open>(B\<^sup>\<dagger> \<phi>, A\<^sup>\<dagger> \<xi>)\<close> has the eigenvalue \<open>\<lambda>\<^sup>-\<^sup>1\<close> exactly when \<open>(\<lambda>, \<phi>)\<close> solves the quadratic
  mode problem; every eigenvector for \<open>\<lambda>\<^sup>-\<^sup>1\<close> is the image of such a \<open>\<phi>\<close>, and the image
  of \<open>\<phi>\<close> is zero only for \<open>\<phi> = 0\<close>.
\<close>

theorem nonsingular_path_equivalence:
  assumes "is_inverse V Vi" and "0 < nv" and "lam \<noteq> 0"
  shows "(eig_holds (nonsing_problem H V E nv Vi) (inverse lam)
            (phibar (hop_B_nonsing nv) phi, xibar (hop_A_nonsing nv V) (smult lam phi))
          \<longleftrightarrow> quad_residual H V E lam phi = vzero)
       \<and> (\<forall>pb xb. eig_holds (nonsing_problem H V E nv Vi) (inverse lam) (pb, xb) \<longrightarrow>
             (\<exists>ph. pb = phibar (hop_B_nonsing nv) ph
                  \<and> xb = xibar (hop_A_nonsing nv V) (smult lam ph)
                  \<and> quad_residual H V E lam ph = vzero))
       \<and> (phibar (hop_B_nonsing nv) phi = vzero \<longleftrightarrow> phi = vzero)"
proof (intro conjI allI impI)
  note V = nonsing_factorisation [OF assms(2), of V]
  note A = nonsing_A_inverse [OF assms(2) assms(1)]
  note B = nonsing_B_inverse [OF assms(2)]
  show "eig_holds (nonsing_problem H V E nv Vi) (inverse lam)
            (phibar (hop_B_nonsing nv) phi, xibar (hop_A_nonsing nv V) (smult lam phi))
          \<longleftrightarrow> quad_residual H V E lam phi = vzero"
    unfolding nonsing_problem_def by (rule nonsing_eig_iff [OF V A B assms(3)])
  show "phibar (hop_B_nonsing nv) phi = vzero \<longleftrightarrow> phi = vzero"
    using assms(2)
    by (simp add: phibar_def hop_B_nonsing_def dagger_msmult mv_msmult smult_eq_vzero_iff)
  fix pb xb
  assume e: "eig_holds (nonsing_problem H V E nv Vi) (inverse lam) (pb, xb)"
  let ?ph = "mv (hop_Bdag_inv nv) pb"
  from e have e': "eig_holds (nonsing_matrix H E (hop_A_nonsing nv V) (hop_A_inv nv Vi)
      (hop_B_nonsing nv) (hop_Bdag_inv nv)) (inverse lam) (pb, xb)"
    by (simp only: nonsing_problem_def)
  from nonsing_eig_complete [OF V A B assms(3) e']
  have c: "pb = phibar (hop_B_nonsing nv) ?ph"
       "xb = xibar (hop_A_nonsing nv V) (smult lam ?ph)" by blast+
  from e' c have "eig_holds (nonsing_matrix H E (hop_A_nonsing nv V) (hop_A_inv nv Vi)
      (hop_B_nonsing nv) (hop_Bdag_inv nv)) (inverse lam)
      (phibar (hop_B_nonsing nv) ?ph, xibar (hop_A_nonsing nv V) (smult lam ?ph))"
    by simp
  then have "quad_residual H V E lam ?ph = vzero"
    by (simp only: nonsing_eig_iff [OF V A B assms(3)])
  with c show "\<exists>ph. pb = phibar (hop_B_nonsing nv) ph
                  \<and> xb = xibar (hop_A_nonsing nv V) (smult lam ph)
                  \<and> quad_residual H V E lam ph = vzero"
    by blast
qed

lemma unit_inverse_example: "is_inverse (\<lambda>(i::unit) (j::unit). 1) (\<lambda>i j. 1)"
  by (simp add: is_inverse_def mm_def mone_def fun_eq_iff)

lemma unit_quad_example:
  "quad_residual (\<lambda>(i::unit) (j::unit). 2) (\<lambda>i j. 1) 2 \<i> (\<lambda>i. 1) = vzero"
  by (simp add: quad_residual_def vadd_def smult_def mv_def dagger_def shiftE_def vzero_def
      fun_eq_iff)

theorem nonsingular_path_equivalence_witness:
  "is_inverse (\<lambda>(i::unit) (j::unit). 1) (\<lambda>i j. 1) \<and> (0::real) < 1 \<and> \<i> \<noteq> 0
   \<and> eig_holds (nonsing_problem (\<lambda>(i::unit) (j::unit). 2) (\<lambda>i j. 1) 2 1 (\<lambda>i j. 1)) (inverse \<i>)
         (phibar (hop_B_nonsing 1) (\<lambda>i. 1), xibar (hop_A_nonsing 1 (\<lambda>i j. 1)) (smult \<i> (\<lambda>i. 1)))
   \<and> quad_residual (\<lambda>(i::unit) (j::unit). 2) (\<lambda>i j. 1) 2 \<i> (\<lambda>i. 1) = vzero"
proof -
  have n: "(0::real) < 1" and l: "\<i> \<noteq> 0" by simp_all
  from nonsingular_path_equivalence [OF unit_inverse_example n l, of "\<lambda>i j. 2" 2 "\<lambda>i. 1"]
    unit_quad_example unit_inverse_example n l
  show ?thesis by blast
qed

section \<open>Soundness of the singular path\<close>

lemma mm_assoc: "mm (mm A B) C = mm A (mm B C)"
proof (intro ext)
  fix i j
  have "mm (mm A B) C i j = (\<Sum>k\<in>UNIV. \<Sum>l\<in>UNIV. A i l * B l k * C k j)"
    by (simp add: mm_def sum_distrib_right)
  also have "\<dots> = (\<Sum>l\<in>UNIV. \<Sum>k\<in>UNIV. A i l * B l k * C k j)"
    by (rule sum.swap)
  also have "\<dots> = mm A (mm B C) i j"
    by (simp add: mm_def sum_distrib_left mult.assoc)
  finally show "mm (mm A B) C i j = mm A (mm B C) i j" .
qed

lemma dagger_diag [simp]: "dagger (diag s) = diag s"
  by (auto simp add: dagger_def diag_def fun_eq_iff)

lemma mm_diag_diag: "mm (diag s) (diag t) = diag (\<lambda>k. s k * t k)"
  by (auto simp add: mm_def diag_def fun_eq_iff if_distrib [of "\<lambda>c. c * _"] sum.delta
      cong: if_cong)

lemma svd_factorisation:
  assumes "\<forall>k. 0 \<le> s k"
  shows "svd_product U s W = mm (hop_A_sing U s) (dagger (hop_B_sing W s))"
proof -
  have "(\<lambda>k. sqrt (s k) * sqrt (s k)) = s"
    using assms by (simp add: fun_eq_iff)
  then have "mm (diag (\<lambda>k. sqrt (s k))) (diag (\<lambda>k. sqrt (s k))) = diag s"
    by (simp add: mm_diag_diag)
  then have "mm (diag (\<lambda>k. sqrt (s k))) (mm (diag (\<lambda>k. sqrt (s k))) (dagger W))
      = mm (diag s) (dagger W)"
    by (simp only: mm_assoc [symmetric])
  then show ?thesis
    by (simp add: svd_product_def hop_A_sing_def hop_B_sing_def dagger_mm mm_assoc)
qed

lemma vadd_assoc: "vadd (vadd x y) z = vadd x (vadd y z)"
  by (simp add: vadd_def add.assoc)

lemma vadd_commute: "vadd x y = vadd y x"
  by (simp add: vadd_def add.commute)

lemma vadd_left_commute: "vadd x (vadd y z) = vadd y (vadd x z)"
  by (simp add: vadd_def add.left_commute)

lemmas vadd_ac = vadd_assoc vadd_commute vadd_left_commute

lemma bmv_bmm: "bmv (bmm X Y) x = bmv X (bmv Y x)"
proof -
  obtain X11 X12 X21 X22 where X: "X = (X11, X12, X21, X22)" by (cases X) auto
  obtain Y11 Y12 Y21 Y22 where Y: "Y = (Y11, Y12, Y21, Y22)" by (cases Y) auto
  obtain a b where x: "x = (a, b)" by (cases x) auto
  show ?thesis
    by (simp add: X Y x mv_madd mv_mm mv_vadd vadd_ac)
qed

lemma bmv_bone [simp]: "bmv bone x = x"
  by (cases x) (simp add: bone_def)

lemma bmv_bsmult: "bmv M (bsmult c x) = bsmult c (bmv M x)"
proof -
  obtain M11 M12 M21 M22 where M: "M = (M11, M12, M21, M22)" by (cases M) auto
  obtain a b where x: "x = (a, b)" by (cases x) auto
  show ?thesis by (simp add: M x mv_smult smult_vadd)
qed

lemma solves_reduce_problem:
  assumes "inverse_outcome R Ri" and "solves (reduce_problem L R Ri) mu x"
  shows "bmv L x = bsmult mu (bmv R x)"
proof (cases Ri)
  case None
  with assms(2) show ?thesis by simp
next
  case (Some Q)
  with assms have inv: "bmm R Q = bone" and e: "bmv (bmm Q L) x = bsmult mu x"
    by (simp_all add: eig_holds_def)
  have "bmv L x = bmv (bmm R Q) (bmv L x)" by (simp add: inv)
  also have "\<dots> = bmv R (bmv (bmm Q L) x)" by (simp only: bmv_bmm)
  also have "\<dots> = bsmult mu (bmv R x)" by (simp only: e bmv_bsmult)
  finally show ?thesis .
qed

lemma sing_gevp_sound:
  fixes A B :: "('n::finite, 'r::finite) cmat"
  assumes V: "V = mm A (dagger B)"
    and G: "mm (Hbar H E A B) G = mone"
    and l: "lam \<noteq> 0"
    and e: "bmv (sing_lhs A B G) (pb, xb) = bsmult (inverse lam) (bmv (sing_rhs A B G) (pb, xb))"
  shows "quad_residual H V E lam (recover_phi A B G lam (pb, xb)) = vzero"
proof -
  define mu where "mu = inverse lam"
  define a1 a2 b1 b2 where "a1 = mv A pb" and "a2 = mv A xb" and "b1 = mv B pb" and "b2 = mv B xb"
  define r where "r = vadd (smult (- 1) b2)
            (vadd (smult (- mu) a1) (vadd (smult (\<i> * mu) a2) (smult \<i> b1)))"
  define phi where "phi = mv G r"
  have phi: "recover_phi A B G lam (pb, xb) = phi"
    by (simp add: phi_def r_def a1_def a2_def b1_def b2_def mu_def)
  have lm: "lam * mu = 1" using l by (simp add: mu_def)
  \<comment> \<open>the two block rows say \<open>A\<^sup>\<dagger> \<phi> = \<mu> \<xi>'\<close> and \<open>B\<^sup>\<dagger> \<phi> = \<phi>'\<close>\<close>
  have Aphi: "mv (dagger A) phi = vadd (smult (- 1) (mv (dagger A) (mv G b2)))
      (vadd (smult (- mu) (mv (dagger A) (mv G a1)))
        (vadd (smult (\<i> * mu) (mv (dagger A) (mv G a2))) (smult \<i> (mv (dagger A) (mv G b1)))))"
    by (simp add: phi_def r_def mv_vadd mv_smult)
  have Bphi: "mv (dagger B) phi = vadd (smult (- 1) (mv (dagger B) (mv G b2)))
      (vadd (smult (- mu) (mv (dagger B) (mv G a1)))
        (vadd (smult (\<i> * mu) (mv (dagger B) (mv G a2))) (smult \<i> (mv (dagger B) (mv G b1)))))"
    by (simp add: phi_def r_def mv_vadd mv_smult)
  from e have row1: "vadd (smult (- \<i>) (mv (dagger A) (mv G b1))) (mv (dagger A) (mv G b2))
      = smult mu (vadd (smult (- 1) (mv (dagger A) (mv G a1)))
          (vadd (smult \<i> (mv (dagger A) (mv G a2))) (smult (- 1) xb)))"
    and row2: "vadd (vadd pb (smult (- \<i>) (mv (dagger B) (mv G b1)))) (mv (dagger B) (mv G b2))
      = smult mu (vadd (smult (- 1) (mv (dagger B) (mv G a1)))
          (smult \<i> (mv (dagger B) (mv G a2))))"
    by (simp_all add: sing_lhs_def sing_rhs_def mv_msmult mv_madd mv_mm
        a1_def a2_def b1_def b2_def mu_def)
  have A1: "mv (dagger A) phi = smult mu xb"
  proof
    fix i
    from row1 have "vadd (smult (- \<i>) (mv (dagger A) (mv G b1))) (mv (dagger A) (mv G b2)) i
      = smult mu (vadd (smult (- 1) (mv (dagger A) (mv G a1)))
          (vadd (smult \<i> (mv (dagger A) (mv G a2))) (smult (- 1) xb))) i"
      by simp
    then show "mv (dagger A) phi i = smult mu xb i"
      unfolding Aphi by (simp add: vadd_def smult_def algebra_simps)
  qed
  have B1: "mv (dagger B) phi = pb"
  proof
    fix i
    from row2 have "vadd (vadd pb (smult (- \<i>) (mv (dagger B) (mv G b1)))) (mv (dagger B) (mv G b2)) i
      = smult mu (vadd (smult (- 1) (mv (dagger B) (mv G a1)))
          (smult \<i> (mv (dagger B) (mv G a2)))) i"
      by simp
    then show "mv (dagger B) phi i = pb i"
      unfolding Bphi by (simp add: vadd_def smult_def algebra_simps)
  qed
  \<comment> \<open>the shifted operator applied to \<open>\<phi>\<close> gives back \<open>r\<close>\<close>
  have "mv (Hbar H E A B) phi = r"
    unfolding phi_def by (simp add: mv_mm [symmetric] G)
  then have Hphi: "vadd (mv (shiftE H E) phi) (vadd (smult \<i> (smult mu a2)) (smult \<i> b1)) = r"
    by (simp add: Hbar_def mv_madd mv_msmult mv_mm A1 B1 mv_smult a2_def b1_def)
  have Vphi: "mv V phi = a1"
    by (simp add: V mv_mm B1 a1_def)
  have Vdphi: "mv (dagger V) phi = smult mu b2"
    by (simp add: V dagger_mm mv_mm A1 mv_smult b2_def)
  show ?thesis
  proof
    fix i
    from Hphi have "vadd (mv (shiftE H E) phi) (vadd (smult \<i> (smult mu a2)) (smult \<i> b1)) i = r i"
      by simp
    then have "mv (shiftE H E) phi i + (\<i> * (mu * a2 i) + \<i> * b1 i)
        = (- b2 i - mu * a1 i) + (\<i> * (mu * a2 i) + \<i> * b1 i)"
      by (simp add: r_def vadd_def smult_def algebra_simps)
    then have h: "mv (shiftE H E) phi i = - b2 i - mu * a1 i"
      by (simp only: add_right_cancel)
    have "quad_residual H V E lam phi i = a1 i + lam * (- b2 i - mu * a1 i) + lam\<^sup>2 * (mu * b2 i)"
      by (simp add: quad_residual_def Vphi Vdphi vadd_def smult_def h)
    also have "\<dots> = (1 - lam * mu) * a1 i + lam * (lam * mu - 1) * b2 i"
      by (simp add: algebra_simps power2_eq_square)
    also have "\<dots> = 0" by (simp add: lm)
    finally show "quad_residual H V E lam (recover_phi A B G lam (pb, xb)) i = vzero i"
      unfolding phi by (simp add: vzero_def)
  qed
qed

lemma singular_path_quadratic:
  fixes U W :: "('n::finite, 'r::finite) cmat"
  assumes "V = svd_product U s W" and "\<forall>k. 0 \<le> s k"
    and "mm (Hbar H E (hop_A_sing U s) (hop_B_sing W s)) G = mone"
    and "lam \<noteq> 0"
    and "inverse_outcome (sing_rhs (hop_A_sing U s) (hop_B_sing W s) G) Ri"
    and "solves (singular_path_problem (hop_A_sing U s) (hop_B_sing W s) G Ri) (inverse lam) (pb, xb)"
  shows "quad_residual H V E lam (recover_phi (hop_A_sing U s) (hop_B_sing W s) G lam (pb, xb)) = vzero"
proof -
  have V: "V = mm (hop_A_sing U s) (dagger (hop_B_sing W s))"
    using assms(1) svd_factorisation [OF assms(2)] by simp
  have "bmv (sing_lhs (hop_A_sing U s) (hop_B_sing W s) G) (pb, xb)
      = bsmult (inverse lam) (bmv (sing_rhs (hop_A_sing U s) (hop_B_sing W s) G) (pb, xb))"
    using assms(5,6) unfolding singular_path_problem_def by (rule solves_reduce_problem)
  then show ?thesis
    by (rule sing_gevp_sound [OF V assms(3) assms(4)])
qed

text \<open>
  C4. On the singular path the hopping matrix is never inverted: only the inverse \<open>G\<close> of
  the shifted operator \<open>H - E + i A A\<^sup>\<dagger> + i B B\<^sup>\<dagger>\<close> with the SVD factors \<open>A = U \<surd>S\<close>,
  \<open>B = W \<surd>S\<close> enters. The problem is reduced to a standard eigenproblem only when an
  inverse of the right-hand block matrix is at hand and is otherwise left in generalized
  form; in both cases the wavefunction of every solution for \<open>\<lambda>\<^sup>-\<^sup>1\<close> satisfies the quadratic
  relation.
\<close>

theorem singular_path_sound:
  fixes U W :: "('n::finite, 'r::finite) cmat"
  assumes "V = svd_product U s W" and "\<forall>k. 0 \<le> s k"
    and "mm (Hbar H E (hop_A_sing U s) (hop_B_sing W s)) G = mone"
    and "lam \<noteq> 0"
    and "inverse_outcome (sing_rhs (hop_A_sing U s) (hop_B_sing W s) G) Ri"
    and "solves (singular_path_problem (hop_A_sing U s) (hop_B_sing W s) G Ri) (inverse lam) (pb, xb)"
  shows "quad_residual H V E lam (recover_phi (hop_A_sing U s) (hop_B_sing W s) G lam (pb, xb)) = vzero
       \<and> (Ri = None \<longrightarrow> singular_path_problem (hop_A_sing U s) (hop_B_sing W s) G Ri
              = Generalized (sing_lhs (hop_A_sing U s) (hop_B_sing W s) G)
                  (sing_rhs (hop_A_sing U s) (hop_B_sing W s) G))
       \<and> (\<forall>M. singular_path_problem (hop_A_sing U s) (hop_B_sing W s) G Ri = Standard M \<longrightarrow>
              (\<exists>Q. bmm (sing_rhs (hop_A_sing U s) (hop_B_sing W s) G) Q = bone))"
proof (intro conjI allI impI)
  show "quad_residual H V E lam
      (recover_phi (hop_A_sing U s) (hop_B_sing W s) G lam (pb, xb)) = vzero"
    using assms by (rule singular_path_quadratic)
next
  assume "Ri = None"
  then show "singular_path_problem (hop_A_sing U s) (hop_B_sing W s) G Ri
              = Generalized (sing_lhs (hop_A_sing U s) (hop_B_sing W s) G)
                  (sing_rhs (hop_A_sing U s) (hop_B_sing W s) G)"
    by (simp add: singular_path_problem_def)
next
  fix M
  assume "singular_path_problem (hop_A_sing U s) (hop_B_sing W s) G Ri = Standard M"
  then obtain Q where "Ri = Some Q"
    by (cases Ri) (simp_all add: singular_path_problem_def)
  with assms(5) have "bmm (sing_rhs (hop_A_sing U s) (hop_B_sing W s) G) Q = bone"
    by simp
  then show "\<exists>Q. bmm (sing_rhs (hop_A_sing U s) (hop_B_sing W s) G) Q = bone"
    by (rule exI)
qed

lemma ex_svd: "ex_V = svd_product ex_U ex_s ex_W"
  by (auto simp add: ex_V_def svd_product_def ex_U_def ex_s_def ex_W_def mm_def diag_def dagger_def
      fun_eq_iff)

lemma ex_A: "hop_A_sing ex_U ex_s = ex_U"
  by (simp add: hop_A_sing_def ex_U_def ex_s_def mm_def diag_def fun_eq_iff)

lemma ex_B: "hop_B_sing ex_W ex_s = ex_W"
  by (simp add: hop_B_sing_def ex_W_def ex_s_def mm_def diag_def fun_eq_iff)

lemma ex_Hbar_inverse: "mm (Hbar ex_H 0 ex_U ex_W) ex_G = mone"
  by (simp add: Hbar_def ex_H_def ex_U_def ex_W_def ex_G_def mm_def madd_def msmult_def
      dagger_def shiftE_def mone_def fun_eq_iff UNIV_bool complex_eq_iff field_simps)

lemma ex_solves:
  "solves (singular_path_problem ex_U ex_W ex_G None) (inverse \<i>) (\<lambda>k. 1, \<lambda>k. - 1 - \<i>)"
  by (simp add: singular_path_problem_def sing_lhs_def sing_rhs_def ex_U_def ex_W_def ex_G_def
      mm_def mv_def madd_def msmult_def vadd_def smult_def dagger_def mone_def fun_eq_iff
      UNIV_bool complex_eq_iff field_simps)

theorem singular_path_sound_witness:
  "ex_V = svd_product ex_U ex_s ex_W \<and> (\<forall>k. 0 \<le> ex_s k)
   \<and> mm (Hbar ex_H 0 (hop_A_sing ex_U ex_s) (hop_B_sing ex_W ex_s)) ex_G = mone
   \<and> \<i> \<noteq> 0
   \<and> solves (singular_path_problem (hop_A_sing ex_U ex_s) (hop_B_sing ex_W ex_s) ex_G None)
        (inverse \<i>) (\<lambda>k. 1, \<lambda>k. - 1 - \<i>)
   \<and> quad_residual ex_H ex_V 0 \<i>
        (recover_phi (hop_A_sing ex_U ex_s) (hop_B_sing ex_W ex_s) ex_G \<i> (\<lambda>k. 1, \<lambda>k. - 1 - \<i>))
       = vzero
   \<and> recover_phi (hop_A_sing ex_U ex_s) (hop_B_sing ex_W ex_s) ex_G \<i> (\<lambda>k. 1, \<lambda>k. - 1 - \<i>)
       = (\<lambda>i. if i then 1 else \<i> - 1)"
proof -
  have s: "\<forall>k. 0 \<le> ex_s k" by (simp add: ex_s_def)
  have l: "\<i> \<noteq> 0" by simp
  have g: "mm (Hbar ex_H 0 (hop_A_sing ex_U ex_s) (hop_B_sing ex_W ex_s)) ex_G = mone"
    by (simp only: ex_A ex_B ex_Hbar_inverse)
  have o: "inverse_outcome (sing_rhs (hop_A_sing ex_U ex_s) (hop_B_sing ex_W ex_s) ex_G) None"
    by simp
  have e: "solves (singular_path_problem (hop_A_sing ex_U ex_s) (hop_B_sing ex_W ex_s) ex_G None)
        (inverse \<i>) (\<lambda>k. 1, \<lambda>k. - 1 - \<i>)"
    by (simp only: ex_A ex_B ex_solves)
  have r: "recover_phi (hop_A_sing ex_U ex_s) (hop_B_sing ex_W ex_s) ex_G \<i> (\<lambda>k. 1, \<lambda>k. - 1 - \<i>)
       = (\<lambda>i. if i then 1 else \<i> - 1)"
    unfolding ex_A ex_B
    by (simp add: ex_U_def ex_W_def ex_G_def mv_def vadd_def smult_def fun_eq_iff UNIV_bool
        complex_eq_iff field_simps)
  from singular_path_sound [OF ex_svd s g l o e] ex_svd s g l e r
  show ?thesis by blast
qed

section \<open>Correctness of the returned modes\<close>

text \<open>
  C1. A mode \<open>(\<lambda>, \<phi>)\<close> returned by the mode solver comes, for a finite non-zero \<open>\<lambda>\<close>, from
  a solution for \<open>\<lambda>\<^sup>-\<^sup>1\<close> of one of the eigenproblems of the slides: the linearised mode
  problem, the standard problem of the non-singular path (with \<open>\<phi> = (B\<^sup>\<dagger>)\<^sup>-\<^sup>1 \<phi>'\<close>), or the
  stabilised problem of the singular path (with \<open>\<phi>\<close> recovered through the shifted
  operator). In each case \<open>\<phi>\<close> satisfies the quadratic relation, exactly and therefore
  within every tolerance.
\<close>

theorem returned_mode_satisfies_quadratic:
  fixes U W :: "('n::finite, 'r::finite) cmat"
  shows "(lam \<noteq> 0 \<and> gevp_holds H V E lam (phi, xi) \<longrightarrow> quad_residual H V E lam phi = vzero)
       \<and> (is_inverse V Vi \<and> 0 < nv \<and> lam \<noteq> 0
            \<and> eig_holds (nonsing_problem H V E nv Vi) (inverse lam) (pb, xb)
          \<longrightarrow> quad_residual H V E lam (mv (hop_Bdag_inv nv) pb) = vzero)
       \<and> (V = svd_product U s W \<and> (\<forall>k. 0 \<le> s k)
            \<and> mm (Hbar H E (hop_A_sing U s) (hop_B_sing W s)) G = mone \<and> lam \<noteq> 0
            \<and> inverse_outcome (sing_rhs (hop_A_sing U s) (hop_B_sing W s) G) Ri
            \<and> solves (singular_path_problem (hop_A_sing U s) (hop_B_sing W s) G Ri)
                 (inverse lam) (pc, xc)
          \<longrightarrow> quad_residual H V E lam
                (recover_phi (hop_A_sing U s) (hop_B_sing W s) G lam (pc, xc)) = vzero)"
proof (intro conjI impI)
  assume "lam \<noteq> 0 \<and> gevp_holds H V E lam (phi, xi)"
  then show "quad_residual H V E lam phi = vzero"
    using gevp_quadratic by blast
next
  assume "is_inverse V Vi \<and> 0 < nv \<and> lam \<noteq> 0
      \<and> eig_holds (nonsing_problem H V E nv Vi) (inverse lam) (pb, xb)"
  then show "quad_residual H V E lam (mv (hop_Bdag_inv nv) pb) = vzero"
    using nonsing_quadratic by blast
next
  assume a: "V = svd_product U s W \<and> (\<forall>k. 0 \<le> s k)
      \<and> mm (Hbar H E (hop_A_sing U s) (hop_B_sing W s)) G = mone \<and> lam \<noteq> 0
      \<and> inverse_outcome (sing_rhs (hop_A_sing U s) (hop_B_sing W s) G) Ri
      \<and> solves (singular_path_problem (hop_A_sing U s) (hop_B_sing W s) G Ri)
           (inverse lam) (pc, xc)"
  show "quad_residual H V E lam
      (recover_phi (hop_A_sing U s) (hop_B_sing W s) G lam (pc, xc)) = vzero"
    by (rule singular_path_quadratic) (use a in blast)+
qed

lemma unit_gevp_example:
  "gevp_holds (\<lambda>(i::unit) (j::unit). 2) wire_one 2 \<i> (\<lambda>i. 1, \<lambda>i. \<i>)"
  by (simp add: gevp_holds_iff wire_one_def vadd_def smult_def mv_def dagger_def shiftE_def
      fun_eq_iff)

lemma unit_nonsing_example:
  "eig_holds (nonsing_problem (\<lambda>(i::unit) (j::unit). 2) wire_one 2 1 wire_one) (inverse \<i>)
     (\<lambda>i. 1, \<lambda>i. \<i>)"
  by (simp add: eig_holds_def nonsing_problem_def nonsing_matrix_def hop_A_nonsing_def
      hop_A_inv_def hop_B_nonsing_def hop_Bdag_inv_def wire_one_def mm_def mv_def msmult_def
      mone_def mzero_def vadd_def smult_def dagger_def shiftE_def fun_eq_iff)

lemma unit_sing_factors:
  "hop_A_sing wire_one (\<lambda>k::unit. 1) = wire_one" "hop_B_sing wire_one (\<lambda>k::unit. 1) = wire_one"
  by (simp_all add: hop_A_sing_def hop_B_sing_def wire_one_def mm_def diag_def fun_eq_iff)

lemma unit_sing_example:
  "solves (singular_path_problem wire_one wire_one (\<lambda>(i::unit) (j::unit). - \<i> / 2) None)
     (inverse \<i>) (\<lambda>k::unit. 1, \<lambda>k::unit. \<i>)"
  by (simp add: singular_path_problem_def sing_lhs_def sing_rhs_def wire_one_def
      mm_def mv_def madd_def msmult_def vadd_def smult_def dagger_def mone_def fun_eq_iff
      complex_eq_iff)

theorem returned_mode_satisfies_quadratic_witness:
  "gevp_holds (\<lambda>(i::unit) (j::unit). 2) wire_one 2 \<i> (\<lambda>i. 1, \<lambda>i. \<i>)
   \<and> eig_holds (nonsing_problem (\<lambda>(i::unit) (j::unit). 2) wire_one 2 1 wire_one) (inverse \<i>)
         (\<lambda>i. 1, \<lambda>i. \<i>)
   \<and> solves (singular_path_problem (hop_A_sing wire_one (\<lambda>k::unit. 1))
         (hop_B_sing wire_one (\<lambda>k::unit. 1)) (\<lambda>(i::unit) (j::unit). - \<i> / 2) None)
         (inverse \<i>) (\<lambda>k::unit. 1, \<lambda>k::unit. \<i>)
   \<and> quad_residual (\<lambda>(i::unit) (j::unit). 2) wire_one 2 \<i> (\<lambda>i. 1) = vzero
   \<and> quad_residual (\<lambda>(i::unit) (j::unit). 2) wire_one 2 \<i> (mv (hop_Bdag_inv 1) (\<lambda>i. 1)) = vzero
   \<and> quad_residual (\<lambda>(i::unit) (j::unit). 2) wire_one 2 \<i>
         (recover_phi (hop_A_sing wire_one (\<lambda>k::unit. 1)) (hop_B_sing wire_one (\<lambda>k::unit. 1))
            (\<lambda>(i::unit) (j::unit). - \<i> / 2) \<i> (\<lambda>k::unit. 1, \<lambda>k::unit. \<i>)) = vzero"
proof -
  have l: "\<i> \<noteq> 0" and n: "(0::real) < 1" by simp_all
  have inv: "is_inverse wire_one (wire_one :: (unit, unit) cmat)"
    by (simp add: is_inverse_def wire_one_def mm_def mone_def fun_eq_iff)
  have svd: "wire_one = svd_product wire_one (\<lambda>k::unit. 1) (wire_one :: (unit, unit) cmat)"
    by (simp add: svd_product_def wire_one_def mm_def diag_def dagger_def fun_eq_iff)
  have pos: "\<forall>k::unit. (0::real) \<le> (\<lambda>k. 1) k" by simp
  have G: "mm (Hbar (\<lambda>(i::unit) (j::unit). 2) 2 (hop_A_sing wire_one (\<lambda>k::unit. 1))
      (hop_B_sing wire_one (\<lambda>k::unit. 1))) (\<lambda>(i::unit) (j::unit). - \<i> / 2) = mone"
    unfolding unit_sing_factors
    by (simp add: Hbar_def wire_one_def mm_def madd_def msmult_def dagger_def shiftE_def mone_def
        fun_eq_iff)
  have out: "inverse_outcome (sing_rhs (hop_A_sing wire_one (\<lambda>k::unit. 1))
      (hop_B_sing wire_one (\<lambda>k::unit. 1)) (\<lambda>(i::unit) (j::unit). - \<i> / 2)) None"
    by simp
  have sing: "solves (singular_path_problem (hop_A_sing wire_one (\<lambda>k::unit. 1))
      (hop_B_sing wire_one (\<lambda>k::unit. 1)) (\<lambda>(i::unit) (j::unit). - \<i> / 2) None)
      (inverse \<i>) (\<lambda>k::unit. 1, \<lambda>k::unit. \<i>)"
    by (simp only: unit_sing_factors unit_sing_example)
  note w = returned_mode_satisfies_quadratic [where lam = \<i> and H = "\<lambda>(i::unit) (j::unit). 2"
      and V = wire_one and E = 2 and phi = "\<lambda>i. 1" and xi = "\<lambda>i. \<i>" and Vi = wire_one and nv = 1
      and pb = "\<lambda>i. 1" and xb = "\<lambda>i. \<i>" and U = wire_one and W = wire_one and s = "\<lambda>k::unit. 1"
      and G = "\<lambda>(i::unit) (j::unit). - \<i> / 2" and Ri = None and pc = "\<lambda>k::unit. 1"
      and xc = "\<lambda>k::unit. \<i>"]
  from w l unit_gevp_example
  have a: "quad_residual (\<lambda>(i::unit) (j::unit). 2) wire_one 2 \<i> (\<lambda>i. 1) = vzero"
    by blast
  from w inv n l unit_nonsing_example
  have b: "quad_residual (\<lambda>(i::unit) (j::unit). 2) wire_one 2 \<i> (mv (hop_Bdag_inv 1) (\<lambda>i. 1)) = vzero"
    by blast
  from w svd pos G l out sing
  have c: "quad_residual (\<lambda>(i::unit) (j::unit). 2) wire_one 2 \<i>
         (recover_phi (hop_A_sing wire_one (\<lambda>k::unit. 1)) (hop_B_sing wire_one (\<lambda>k::unit. 1))
            (\<lambda>(i::unit) (j::unit). - \<i> / 2) \<i> (\<lambda>k::unit. 1, \<lambda>k::unit. \<i>)) = vzero"
    by blast
  from unit_gevp_example unit_nonsing_example sing a b c
  show ?thesis by (intro conjI)
qed

section \<open>Stabilisation of the scattering system\<close>

lemma mm_madd_right: "mm A (madd B C) = madd (mm A B) (mm A C)"
  by (simp add: mm_def madd_def distrib_left sum.distrib)

lemma mm_madd_left: "mm (madd A B) C = madd (mm A C) (mm B C)"
  by (simp add: mm_def madd_def distrib_right sum.distrib)

lemmas mm_madd = mm_madd_right mm_madd_left

lemma mm_left_cancel:
  assumes "mm Al A = mone" and "mm A X = mm A Y"
  shows "X = Y"
proof -
  have "mm (mm Al A) X = mm (mm Al A) Y"
    using assms(2) by (simp only: mm_assoc)
  then show ?thesis by (simp add: assms(1))
qed

lemma scattering_second_row:
  assumes V: "V = mm A (dagger B)" and Al: "mm Al A = mone"
  shows "madd (mm (mm (dagger B) P) Psi) (mm (msmult (- 1) (mm (dagger B) Phip)) Q) = mm (dagger B) Phim
         \<longleftrightarrow> madd (mm (mm V P) Psi) (mm (msmult (- 1) (mm V Phip)) Q) = mm V Phim"
    (is "?L = ?R \<longleftrightarrow> ?L' = ?R'")
proof -
  have L: "?L' = mm A ?L"
    by (simp add: V mm_assoc mm_madd mm_msmult)
  have R: "?R' = mm A ?R"
    by (simp add: V mm_assoc)
  show ?thesis
  proof
    assume "?L = ?R"
    then show "?L' = ?R'" by (simp only: L R)
  next
    assume "?L' = ?R'"
    then have "mm A ?L = mm A ?R" by (simp only: L R)
    then show "?L = ?R" by (rule mm_left_cancel [OF Al])
  qed
qed

lemma stabilized_iff_unstabilized:
  assumes V: "V = mm A (dagger B)" and Al: "mm Al A = mone"
  shows "stabilized_system Hs E P B (Xi_bar A Phip Lamp) (Phi_bar B Phip)
           (Xi_bar A Phim Lamm) (Phi_bar B Phim) (Psi, Q)
         \<longleftrightarrow> unstabilized_system Hs E P V Phip Lamp Phim Lamm (Psi, Q)"
proof -
  have dV: "dagger V = mm B (dagger A)"
    by (simp add: V dagger_mm)
  show ?thesis
    unfolding stabilized_system.simps unstabilized_system.simps Xi_bar_def Phi_bar_def
      scattering_second_row [OF V Al]
    by (simp add: dV mm_assoc)
qed

section \<open>Correctness of the direct solver\<close>

lemma back_substitute_other: "k \<noteq> u \<Longrightarrow> back_substitute u us piv x k = x k"
  by (simp add: back_substitute_def)

lemma back_substitute_sum:
  assumes "u \<notin> set us"
  shows "(\<Sum>k\<leftarrow>us. f k * back_substitute u us' piv x k c) = (\<Sum>k\<leftarrow>us. f k * x k c)"
proof -
  have "map (\<lambda>k. f k * back_substitute u us' piv x k c) us = map (\<lambda>k. f k * x k c) us"
    using assms by (intro map_cong) (auto simp add: back_substitute_def)
  then show ?thesis by (rule arg_cong)
qed

lemma eliminate_sum:
  "(\<Sum>k\<leftarrow>us. fst (eliminate u piv eq) k * x k)
     = (\<Sum>k\<leftarrow>us. fst eq k * x k) - fst eq u / fst piv u * (\<Sum>k\<leftarrow>us. fst piv k * x k)"
proof -
  have "(\<Sum>k\<leftarrow>us. fst (eliminate u piv eq) k * x k)
      = (\<Sum>k\<leftarrow>us. fst eq k * x k - fst eq u / fst piv u * (fst piv k * x k))"
    by (simp add: eliminate_def left_diff_distrib mult.assoc)
  then show ?thesis
    by (simp only: sum_list_subtractf sum_list_const_mult)
qed

lemma direct_solve_sound:
  assumes "distinct us" and "direct_solve cs us eqs = Some x" and "eq \<in> set eqs" and "c \<in> set cs"
  shows "(\<Sum>k\<leftarrow>us. fst eq k * x k c) = snd eq c"
  using assms
proof (induction us arbitrary: eqs x eq)
  case Nil
  then show ?case
    by (auto simp add: list_all_iff split: if_splits)
next
  case (Cons u us)
  from Cons.prems(2) obtain piv x' where piv: "find (\<lambda>eq. fst eq u \<noteq> 0) eqs = Some piv"
    and rec: "direct_solve cs us (map (eliminate u piv) eqs) = Some x'"
    and x: "x = back_substitute u us piv x'"
    by (auto split: option.splits)
  from piv have pu: "fst piv u \<noteq> 0"
    by (auto simp add: find_Some_iff)
  from Cons.prems(1) have d: "distinct us" and u: "u \<notin> set us"
    by simp_all
  from Cons.prems(3) have "eliminate u piv eq \<in> set (map (eliminate u piv) eqs)"
    by simp
  with d rec have "(\<Sum>k\<leftarrow>us. fst (eliminate u piv eq) k * x' k c) = snd (eliminate u piv eq) c"
    using \<open>c \<in> set cs\<close> by (rule Cons.IH)
  then have IH: "(\<Sum>k\<leftarrow>us. fst eq k * x' k c)
        - fst eq u / fst piv u * (\<Sum>k\<leftarrow>us. fst piv k * x' k c)
      = snd eq c - fst eq u / fst piv u * snd piv c"
    by (simp add: eliminate_sum) (simp add: eliminate_def)
  have xu: "x u c = (snd piv c - (\<Sum>k\<leftarrow>us. fst piv k * x' k c)) / fst piv u"
    by (simp add: x back_substitute_def)
  have "(\<Sum>k\<leftarrow>u # us. fst eq k * x k c) = fst eq u * x u c + (\<Sum>k\<leftarrow>us. fst eq k * x' k c)"
    by (simp add: x back_substitute_sum [OF u])
  also have "\<dots> = snd eq c"
    using IH pu by (simp add: xu field_simps)
  finally show ?case .
qed

lemma direct_solve_complete:
  assumes "distinct us" and "direct_solve cs us eqs = None"
    and "\<forall>eq\<in>set eqs. \<forall>c\<in>set cs. (\<Sum>k\<leftarrow>us. fst eq k * y k c) = snd eq c"
  shows "\<exists>z. (\<exists>u\<in>set us. z u \<noteq> 0) \<and> (\<forall>eq\<in>set eqs. (\<Sum>k\<leftarrow>us. fst eq k * z k) = 0)"
  using assms
proof (induction us arbitrary: eqs)
  case Nil
  then show ?case
    by (auto simp add: list_all_iff split: if_splits)
next
  case (Cons u us)
  from Cons.prems(1) have d: "distinct us" and u: "u \<notin> set us"
    by simp_all
  show ?case
  proof (cases "find (\<lambda>eq. fst eq u \<noteq> 0) eqs")
    case None
    then have zero: "\<forall>eq\<in>set eqs. fst eq u = 0"
      by (auto simp add: find_None_iff)
    define z :: "'a \<Rightarrow> complex" where "z = (\<lambda>k. if k = u then 1 else 0)"
    have "(\<Sum>k\<leftarrow>us. f k * z k) = 0" for f
    proof -
      have "map (\<lambda>k. f k * z k) us = map (\<lambda>k. 0) us"
        using u by (intro map_cong) (auto simp add: z_def)
      then have "(\<Sum>k\<leftarrow>us. f k * z k) = sum_list (map (\<lambda>k. 0) us)"
        by (rule arg_cong)
      then show ?thesis by simp
    qed
    then have "\<forall>eq\<in>set eqs. (\<Sum>k\<leftarrow>u # us. fst eq k * z k) = 0"
      using zero by (simp add: z_def)
    moreover have "\<exists>v\<in>set (u # us). z v \<noteq> 0"
      by (simp add: z_def)
    ultimately show ?thesis by blast
  next
    case (Some piv)
    then have pu: "fst piv u \<noteq> 0" and pin: "piv \<in> set eqs"
      by (auto simp add: find_Some_iff)
    from Cons.prems(2) Some have rec: "direct_solve cs us (map (eliminate u piv) eqs) = None"
      by simp
    have "\<forall>eq\<in>set (map (eliminate u piv) eqs). \<forall>c\<in>set cs. (\<Sum>k\<leftarrow>us. fst eq k * y k c) = snd eq c"
    proof (intro ballI)
      fix eq' c
      assume "eq' \<in> set (map (eliminate u piv) eqs)" and c: "c \<in> set cs"
      then obtain eq where eq: "eq \<in> set eqs" and eq': "eq' = eliminate u piv eq"
        by auto
      from Cons.prems(3) eq c
      have "fst eq u * y u c + (\<Sum>k\<leftarrow>us. fst eq k * y k c) = snd eq c"
        by auto
      then have e1: "(\<Sum>k\<leftarrow>us. fst eq k * y k c) = snd eq c - fst eq u * y u c"
        by (simp add: eq_diff_eq add.commute)
      from Cons.prems(3) pin c
      have "fst piv u * y u c + (\<Sum>k\<leftarrow>us. fst piv k * y k c) = snd piv c"
        by auto
      then have e2: "(\<Sum>k\<leftarrow>us. fst piv k * y k c) = snd piv c - fst piv u * y u c"
        by (simp add: eq_diff_eq add.commute)
      have "(\<Sum>k\<leftarrow>us. fst eq' k * y k c)
          = (\<Sum>k\<leftarrow>us. fst eq k * y k c)
            - fst eq u / fst piv u * (\<Sum>k\<leftarrow>us. fst piv k * y k c)"
        unfolding eq' by (rule eliminate_sum)
      also have "\<dots> = (snd eq c - fst eq u * y u c)
            - fst eq u / fst piv u * (snd piv c - fst piv u * y u c)"
        by (simp only: e1 e2)
      also have "\<dots> = snd eq' c"
        using pu by (simp add: eq' eliminate_def field_simps)
      finally show "(\<Sum>k\<leftarrow>us. fst eq' k * y k c) = snd eq' c" .
    qed
    with d rec obtain z' where nz: "\<exists>v\<in>set us. z' v \<noteq> 0"
      and ker: "\<forall>eq\<in>set (map (eliminate u piv) eqs). (\<Sum>k\<leftarrow>us. fst eq k * z' k) = 0"
      using Cons.IH by blast
    define z where "z = z'(u := - (\<Sum>k\<leftarrow>us. fst piv k * z' k) / fst piv u)"
    have same: "(\<Sum>k\<leftarrow>us. f k * z k) = (\<Sum>k\<leftarrow>us. f k * z' k)" for f
    proof -
      have "map (\<lambda>k. f k * z k) us = map (\<lambda>k. f k * z' k) us"
        using u by (intro map_cong) (auto simp add: z_def)
      then show ?thesis by (rule arg_cong)
    qed
    have "(\<Sum>k\<leftarrow>u # us. fst eq k * z k) = 0" if "eq \<in> set eqs" for eq
    proof -
      from ker that have "(\<Sum>k\<leftarrow>us. fst (eliminate u piv eq) k * z' k) = 0"
        by simp
      then have "(\<Sum>k\<leftarrow>us. fst eq k * z' k)
          = fst eq u / fst piv u * (\<Sum>k\<leftarrow>us. fst piv k * z' k)"
        by (simp add: eliminate_sum)
      then show ?thesis
        using pu by (simp add: same) (simp add: z_def field_simps)
    qed
    moreover from nz u have "\<exists>v\<in>set (u # us). z v \<noteq> 0"
      by (auto simp add: z_def)
    ultimately show ?thesis by blast
  qed
qed

section \<open>Correctness of the scattering assembler\<close>

lemma mode_comb_sum: "mode_comb q xs r = (\<Sum>k = 0..<length xs. q k * (xs ! k) r)"
  by (simp add: mode_comb_def interv_sum_list_conv_sum_set_nat)

lemma mv_mode_comb: "mv M (mode_comb q xs) = mode_comb q (map (mv M) xs)"
proof (intro ext)
  fix i
  have "mv M (mode_comb q xs) i = (\<Sum>j\<in>UNIV. \<Sum>k = 0..<length xs. M i j * (q k * (xs ! k) j))"
    by (simp add: mv_def mode_comb_sum sum_distrib_left)
  also have "\<dots> = (\<Sum>k = 0..<length xs. \<Sum>j\<in>UNIV. M i j * (q k * (xs ! k) j))"
    by (rule sum.swap)
  also have "\<dots> = (\<Sum>k = 0..<length xs. q k * mv M (xs ! k) i)"
    by (rule sum.cong) (simp_all add: mv_def sum_distrib_left mult.left_commute)
  also have "\<dots> = mode_comb q (map (mv M) xs) i"
    by (simp add: mode_comb_sum)
  finally show "mv M (mode_comb q xs) i = mode_comb q (map (mv M) xs) i" .
qed

lemma unknowns_distinct: "distinct (unknowns outs)"
  by (auto simp add: unknowns_def distinct_map enum_distinct inj_on_def)

lemma unknowns_set: "set (unknowns outs) = range Inl \<union> Inr ` {0..<length outs}"
  by (auto simp add: unknowns_def enum_UNIV)

lemma unknowns_sum:
  fixes g :: "'s::enum + nat \<Rightarrow> complex"
  shows "(\<Sum>u\<leftarrow>unknowns outs. g u * x u)
     = (\<Sum>j\<in>UNIV. g (Inl j) * x (Inl j)) + (\<Sum>k = 0..<length outs. x (Inr k) * g (Inr k))"
proof -
  have a: "(\<Sum>j\<leftarrow>(Enum.enum :: 's list). g (Inl j) * x (Inl j))
      = (\<Sum>j\<in>UNIV. g (Inl j) * x (Inl j))"
    by (simp add: sum_list_distinct_conv_sum_set enum_distinct enum_UNIV)
  have b: "(\<Sum>k\<leftarrow>[0 ..< length outs]. g (Inr k) * x (Inr k))
      = (\<Sum>k = 0..<length outs. x (Inr k) * g (Inr k))"
    by (simp add: interv_sum_list_conv_sum_set_nat mult.commute)
  have "(\<Sum>u\<leftarrow>unknowns outs. g u * x u)
      = (\<Sum>j\<leftarrow>(Enum.enum :: 's list). g (Inl j) * x (Inl j))
        + (\<Sum>k\<leftarrow>[0 ..< length outs]. g (Inr k) * x (Inr k))"
    by (simp add: unknowns_def o_def)
  then show ?thesis
    by (simp only: a b)
qed

text \<open>
  The rows of the assembled matrix applied to a vector of unknowns are the two block rows
  of the stabilised system.
\<close>

lemma block_matrix_sites:
  fixes Hs :: "('s::enum, 's) cmat" and P :: "('n::finite, 's) cmat" and B :: "('n, 'r::finite) cmat"
  shows "(\<Sum>u\<leftarrow>unknowns outs. block_matrix Hs E P B outs (Inl i) u * x u)
     = vadd (mv (shiftE Hs E) (\<lambda>j. x (Inl j)))
         (mv (mtranspose P) (mv B (mode_comb (\<lambda>k. x (Inr k)) (map (\<lambda>m. snd (snd m)) outs)))) i"
proof -
  have "(\<Sum>u\<leftarrow>unknowns outs. block_matrix Hs E P B outs (Inl i) u * x u)
      = (\<Sum>j\<in>UNIV. shiftE Hs E i j * x (Inl j))
        + (\<Sum>k = 0..<length outs. x (Inr k) * mv (mtranspose P) (mv B (snd (snd (outs ! k)))) i)"
    unfolding unknowns_sum by (simp add: block_matrix_def shiftE_def mv_def mtranspose_def)
  then show ?thesis
    by (simp add: vadd_def mv_mode_comb mode_comb_sum) (simp add: mv_def)
qed

lemma block_matrix_modes:
  fixes Hs :: "('s::enum, 's) cmat" and P :: "('n::finite, 's) cmat" and B :: "('n, 'r::finite) cmat"
  shows "(\<Sum>u\<leftarrow>unknowns outs. block_matrix Hs E P B outs (Inr r) u * x u)
     = vadd (mv (mm (dagger B) P) (\<lambda>j. x (Inl j)))
         (smult (- 1) (mode_comb (\<lambda>k. x (Inr k)) (map (\<lambda>m. fst (snd m)) outs))) r"
proof -
  have "(\<Sum>u\<leftarrow>unknowns outs. block_matrix Hs E P B outs (Inr r) u * x u)
      = (\<Sum>j\<in>UNIV. mm (dagger B) P r j * x (Inl j))
        + (\<Sum>k = 0..<length outs. x (Inr k) * - fst (snd (outs ! k)) r)"
    unfolding unknowns_sum by (simp add: block_matrix_def mm_def dagger_def)
  then show ?thesis
    by (simp add: vadd_def smult_def mode_comb_sum mv_def sum_negf)
qed

lemma right_hand_side_sites:
  "right_hand_side P B ins (Inl i) c = smult (- 1) (mv (mtranspose P) (mv B (snd (ins ! c)))) i"
  by (simp add: right_hand_side_def smult_def mv_def mtranspose_def)

lemma right_hand_side_modes: "right_hand_side P B ins (Inr r) c = fst (ins ! c) r"
  by (simp add: right_hand_side_def)

lemma assemble_set:
  fixes Hs :: "('s::enum, 's) cmat" and P :: "('n::finite, 's) cmat" and B :: "('n, 'r::enum) cmat"
  shows "set (assemble Hs E P B outs ins)
     = (\<lambda>row. (block_matrix Hs E P B outs row, right_hand_side P B ins row)) ` UNIV"
proof -
  have "set (map Inl (Enum.enum :: 's list) @ map Inr (Enum.enum :: 'r list)) = UNIV"
    by (auto simp add: enum_UNIV) (metis sum.exhaust rangeI UNIV_I image_eqI)
  then show ?thesis
    unfolding assemble_def set_map by simp
qed

lemma assemble_solution_iff:
  fixes Hs :: "('s::enum, 's) cmat" and P :: "('n::finite, 's) cmat" and B :: "('n, 'r::enum) cmat"
  shows "(\<forall>eq\<in>set (assemble Hs E P B outs ins). (\<Sum>u\<leftarrow>unknowns outs. fst eq u * x u) = snd eq c)
     \<longleftrightarrow> stabilized_rows Hs E P B
           (mode_comb (\<lambda>k. x (Inr k)) (map (\<lambda>m. snd (snd m)) outs))
           (mode_comb (\<lambda>k. x (Inr k)) (map (\<lambda>m. fst (snd m)) outs))
           (snd (ins ! c)) (fst (ins ! c)) (\<lambda>i. x (Inl i))"
proof -
  have "(\<forall>eq\<in>set (assemble Hs E P B outs ins). (\<Sum>u\<leftarrow>unknowns outs. fst eq u * x u) = snd eq c)
      \<longleftrightarrow> (\<forall>row. (\<Sum>u\<leftarrow>unknowns outs. block_matrix Hs E P B outs row u * x u)
            = right_hand_side P B ins row c)"
    by (simp add: assemble_set)
  also have "\<dots> \<longleftrightarrow> (\<forall>i. (\<Sum>u\<leftarrow>unknowns outs. block_matrix Hs E P B outs (Inl i) u * x u)
            = right_hand_side P B ins (Inl i) c)
        \<and> (\<forall>r. (\<Sum>u\<leftarrow>unknowns outs. block_matrix Hs E P B outs (Inr r) u * x u)
            = right_hand_side P B ins (Inr r) c)"
    by (metis sum.exhaust)
  finally show ?thesis
    unfolding block_matrix_sites block_matrix_modes right_hand_side_sites right_hand_side_modes
      stabilized_rows_def fun_eq_iff .
qed

lemma assemble_kernel_iff:
  fixes Hs :: "('s::enum, 's) cmat" and P :: "('n::finite, 's) cmat" and B :: "('n, 'r::enum) cmat"
  shows "(\<forall>eq\<in>set (assemble Hs E P B outs ins). (\<Sum>u\<leftarrow>unknowns outs. fst eq u * z u) = 0)
     \<longleftrightarrow> stabilized_rows Hs E P B
           (mode_comb (\<lambda>k. z (Inr k)) (map (\<lambda>m. snd (snd m)) outs))
           (mode_comb (\<lambda>k. z (Inr k)) (map (\<lambda>m. fst (snd m)) outs))
           vzero vzero (\<lambda>i. z (Inl i))"
proof -
  have "(\<forall>eq\<in>set (assemble Hs E P B outs ins). (\<Sum>u\<leftarrow>unknowns outs. fst eq u * z u) = 0)
      \<longleftrightarrow> (\<forall>row. (\<Sum>u\<leftarrow>unknowns outs. block_matrix Hs E P B outs row u * z u) = 0)"
    by (simp add: assemble_set)
  also have "\<dots> \<longleftrightarrow> (\<forall>i. (\<Sum>u\<leftarrow>unknowns outs. block_matrix Hs E P B outs (Inl i) u * z u) = 0)
        \<and> (\<forall>r. (\<Sum>u\<leftarrow>unknowns outs. block_matrix Hs E P B outs (Inr r) u * z u) = 0)"
    by (metis sum.exhaust)
  also have "\<dots> \<longleftrightarrow> stabilized_rows Hs E P B
           (mode_comb (\<lambda>k. z (Inr k)) (map (\<lambda>m. snd (snd m)) outs))
           (mode_comb (\<lambda>k. z (Inr k)) (map (\<lambda>m. fst (snd m)) outs))
           vzero vzero (\<lambda>i. z (Inl i))"
    unfolding block_matrix_sites block_matrix_modes stabilized_rows_def fun_eq_iff
      mv_vzero smult_vzero
    by (simp add: vzero_def)
  finally show ?thesis .
qed

lemma solve_scattering_rows:
  fixes Hs :: "('s::enum, 's) cmat" and P :: "('n::finite, 's) cmat" and B :: "('n, 'r::enum) cmat"
  assumes ret: "solve_scattering Hs E P B outs ins = Inr (Psi, Q, S)" and c: "c < length ins"
  shows "stabilized_rows Hs E P B
           (mode_comb (\<lambda>k. Q k c) (map (\<lambda>m. snd (snd m)) outs))
           (mode_comb (\<lambda>k. Q k c) (map (\<lambda>m. fst (snd m)) outs))
           (snd (ins ! c)) (fst (ins ! c)) (\<lambda>i. Psi i c)"
proof -
  from ret obtain x
    where ds: "direct_solve [0 ..< length ins] (unknowns outs) (assemble Hs E P B outs ins) = Some x"
      and Psi: "Psi = (\<lambda>i c. x (Inl i) c)" and Q: "Q = (\<lambda>k c. x (Inr k) c)"
    by (auto simp add: solve_scattering_def split: option.splits)
  from c have "c \<in> set [0 ..< length ins]"
    by simp
  then have "\<forall>eq\<in>set (assemble Hs E P B outs ins).
      (\<Sum>u\<leftarrow>unknowns outs. fst eq u * x u c) = snd eq c"
    using direct_solve_sound [OF unknowns_distinct ds] by blast
  then show ?thesis
    unfolding Psi Q by (simp only: assemble_solution_iff [where x = "\<lambda>u. x u c"])
qed

text \<open>
  The assembler fails only on a singular matrix: if every column has a solution and the
  homogeneous system has only the zero solution, it returns a result.
\<close>

lemma solve_scattering_succeeds:
  fixes Hs :: "('s::enum, 's) cmat" and P :: "('n::finite, 's) cmat" and B :: "('n, 'r::enum) cmat"
  assumes sol: "\<forall>c<length ins. \<exists>psi q. stabilized_rows Hs E P B
        (mode_comb q (map (\<lambda>m. snd (snd m)) outs)) (mode_comb q (map (\<lambda>m. fst (snd m)) outs))
        (snd (ins ! c)) (fst (ins ! c)) psi"
    and ker: "\<forall>psi q. stabilized_rows Hs E P B
        (mode_comb q (map (\<lambda>m. snd (snd m)) outs)) (mode_comb q (map (\<lambda>m. fst (snd m)) outs))
        vzero vzero psi \<longrightarrow> psi = vzero \<and> (\<forall>k<length outs. q k = 0)"
  shows "solve_scattering Hs E P B outs ins \<noteq> Inl SingularAssemblyMatrix"
proof
  assume "solve_scattering Hs E P B outs ins = Inl SingularAssemblyMatrix"
  then have none: "direct_solve [0 ..< length ins] (unknowns outs) (assemble Hs E P B outs ins) = None"
    by (auto simp add: solve_scattering_def split: option.splits)
  from sol obtain f g where fg: "\<forall>c<length ins. stabilized_rows Hs E P B
        (mode_comb (g c) (map (\<lambda>m. snd (snd m)) outs))
        (mode_comb (g c) (map (\<lambda>m. fst (snd m)) outs))
        (snd (ins ! c)) (fst (ins ! c)) (f c)"
    by metis
  define y :: "'s + nat \<Rightarrow> nat \<Rightarrow> complex"
    where "y = (\<lambda>u c. case u of Inl i \<Rightarrow> f c i | Inr k \<Rightarrow> g c k)"
  have "\<forall>eq\<in>set (assemble Hs E P B outs ins). \<forall>c\<in>set [0 ..< length ins].
      (\<Sum>u\<leftarrow>unknowns outs. fst eq u * y u c) = snd eq c"
  proof (intro ballI)
    fix eq c
    assume eq: "eq \<in> set (assemble Hs E P B outs ins)" and "c \<in> set [0 ..< length ins]"
    then have "c < length ins"
      by simp
    with fg have "stabilized_rows Hs E P B
        (mode_comb (\<lambda>k. y (Inr k) c) (map (\<lambda>m. snd (snd m)) outs))
        (mode_comb (\<lambda>k. y (Inr k) c) (map (\<lambda>m. fst (snd m)) outs))
        (snd (ins ! c)) (fst (ins ! c)) (\<lambda>i. y (Inl i) c)"
      by (simp add: y_def)
    then show "(\<Sum>u\<leftarrow>unknowns outs. fst eq u * y u c) = snd eq c"
      using eq by (simp only: assemble_solution_iff [where x = "\<lambda>u. y u c", symmetric])
  qed
  with unknowns_distinct none obtain z
    where nz: "\<exists>u\<in>set (unknowns outs). z u \<noteq> 0"
      and hom: "\<forall>eq\<in>set (assemble Hs E P B outs ins). (\<Sum>u\<leftarrow>unknowns outs. fst eq u * z u) = 0"
    using direct_solve_complete by blast
  from hom have "stabilized_rows Hs E P B
        (mode_comb (\<lambda>k. z (Inr k)) (map (\<lambda>m. snd (snd m)) outs))
        (mode_comb (\<lambda>k. z (Inr k)) (map (\<lambda>m. fst (snd m)) outs))
        vzero vzero (\<lambda>i. z (Inl i))"
    by (simp only: assemble_kernel_iff)
  with ker have "(\<lambda>i. z (Inl i)) = vzero" and "\<forall>k<length outs. z (Inr k) = 0"
    by blast+
  then have "\<forall>u\<in>set (unknowns outs). z u = 0"
    by (auto simp add: unknowns_set vzero_def fun_eq_iff)
  with nz show False
    by blast
qed

lemma stabilized_rows_iff_unstabilized:
  assumes V: "V = mm A (dagger B)" and Al: "mm Al A = mone"
  shows "stabilized_rows Hs E P B (mv (dagger A) xiq) (mv (dagger B) phiq)
           (mv (dagger A) xim) (mv (dagger B) phim) psi
         \<longleftrightarrow> unstabilized_rows Hs E P V xiq phiq xim phim psi"
proof -
  have dV: "mv (dagger V) x = mv B (mv (dagger A) x)" for x
    by (simp add: V dagger_mm mv_mm)
  have lhs: "vadd (mv (mm V P) psi) (smult (- 1) (mv V phiq))
      = mv A (vadd (mv (mm (dagger B) P) psi) (smult (- 1) (mv (dagger B) phiq)))"
    by (simp add: V mv_mm mv_vadd mv_smult)
  have rhs: "mv V phim = mv A (mv (dagger B) phim)"
    by (simp add: V mv_mm)
  have "vadd (mv (mm (dagger B) P) psi) (smult (- 1) (mv (dagger B) phiq)) = mv (dagger B) phim
      \<longleftrightarrow> vadd (mv (mm V P) psi) (smult (- 1) (mv V phiq)) = mv V phim"
  proof
    assume "vadd (mv (mm (dagger B) P) psi) (smult (- 1) (mv (dagger B) phiq)) = mv (dagger B) phim"
    then show "vadd (mv (mm V P) psi) (smult (- 1) (mv V phiq)) = mv V phim"
      by (simp only: lhs rhs)
  next
    assume "vadd (mv (mm V P) psi) (smult (- 1) (mv V phiq)) = mv V phim"
    then have "mv A (vadd (mv (mm (dagger B) P) psi) (smult (- 1) (mv (dagger B) phiq)))
        = mv A (mv (dagger B) phim)"
      by (simp only: lhs rhs)
    with Al show "vadd (mv (mm (dagger B) P) psi) (smult (- 1) (mv (dagger B) phiq))
        = mv (dagger B) phim"
      by (rule left_inverse_inject)
  qed
  then show ?thesis
    unfolding stabilized_rows_def unstabilized_rows_def dV by simp
qed

lemma stabilize_out_vectors:
  "map (\<lambda>m. snd (snd m)) (map (stabilize_out A B) outs)
     = map (mv (dagger A)) (map (\<lambda>m. snd (snd m)) outs)"
  "map (\<lambda>m. fst (snd m)) (map (stabilize_out A B) outs)
     = map (mv (dagger B)) (map (\<lambda>m. fst (snd m)) outs)"
  by (simp_all add: stabilize_out_def stabilize_in_def)

lemma out_channels_stabilize: "out_channels (map (stabilize_out A B) outs) = out_channels outs"
proof -
  have "filter (\<lambda>k. fst (map (stabilize_out A B) outs ! k)) [0 ..< length outs]
      = filter (\<lambda>k. fst (outs ! k)) [0 ..< length outs]"
    by (rule filter_cong) (simp_all add: stabilize_out_def)
  then show ?thesis
    by (simp add: out_channels_def)
qed

text \<open>
  The stacked systems of the slides are the systems of the single columns, with the
  bundles as matrices.
\<close>

lemma stabilized_system_columns:
  "stabilized_system Hs E P B Xip Phibp Xim Phibm (Psi, Q)
     \<longleftrightarrow> (\<forall>c. stabilized_rows Hs E P B (mv Xip (col Q c)) (mv Phibp (col Q c))
           (col Xim c) (col Phibm c) (col Psi c))"
proof -
  have eq: "M = N \<longleftrightarrow> (\<forall>c. col M c = col N c)" for M N :: "('x, 'y) cmat"
    by (auto simp add: col_def fun_eq_iff)
  have c1: "col (madd M N) c = vadd (col M c) (col N c)" for M N :: "('x, 'y) cmat" and c
    by (simp add: col_def madd_def vadd_def)
  have c2: "col (msmult a M) c = smult a (col M c)" for M :: "('x, 'y) cmat" and a c
    by (simp add: col_def msmult_def smult_def)
  have c3: "col (mm M N) c = mv M (col N c)" for M :: "('x, 'z::finite) cmat" and N :: "('z, 'y) cmat" and c
    by (simp add: col_def mm_def mv_def)
  show ?thesis
    unfolding stabilized_system.simps stabilized_rows_def eq c1 c2 c3 mm_assoc mm_msmult
    by (auto simp add: mv_msmult mv_mm)
qed

text \<open>
  C2. When \<open>solve_scattering\<close> returns \<open>(\<Psi>\<^sub>s, Q\<^sub>+, S)\<close>, every column of \<open>(\<Psi>\<^sub>s, Q\<^sub>+)\<close>, one per
  incoming propagating mode, satisfies the stabilised block system
  \<open>[[H\<^sub>s - E, P\<^sup>T B \<Xi>'\<^sub>+], [B\<^sup>\<dagger> P, - \<Phi>'\<^sub>+]] [\<Psi>\<^sub>s; Q\<^sub>+] = [- P\<^sup>T B \<Xi>'\<^sub>p\<^sub>-; \<Phi>'\<^sub>p\<^sub>-]\<close>. If the bundle
  consists of the vectors \<open>B\<^sup>\<dagger> \<phi>\<close> and \<open>A\<^sup>\<dagger> \<xi>\<close> of modes \<open>(\<phi>, \<xi>)\<close> with \<open>V = A B\<^sup>\<dagger>\<close> and \<open>A\<close> has a left
  inverse, the columns satisfy the \<open>V\<close>-form system, and the two systems have the same
  solutions: the stabilised one is the \<open>V\<close>-form one after the substitution and the
  application of the left inverse to the second block row. \<open>S\<close> consists of the rows of \<open>Q\<^sub>+\<close>
  of the propagating outgoing modes, in their order, with one entry per incoming mode.
\<close>

theorem stabilized_scattering_system:
  fixes Hs :: "('s::enum, 's) cmat" and P :: "('n::finite, 's) cmat" and B :: "('n, 'r::enum) cmat"
  assumes ret: "solve_scattering Hs E P B outs ins = Inr (Psi, Q, S)"
  shows "(\<forall>c<length ins. stabilized_rows Hs E P B
            (mode_comb (\<lambda>k. Q k c) (map (\<lambda>m. snd (snd m)) outs))
            (mode_comb (\<lambda>k. Q k c) (map (\<lambda>m. fst (snd m)) outs))
            (snd (ins ! c)) (fst (ins ! c)) (\<lambda>i. Psi i c))
       \<and> (\<forall>V A Al tb_outs tb_ins. V = mm A (dagger B) \<and> mm Al A = mone
            \<and> outs = map (stabilize_out A B) tb_outs \<and> ins = map (stabilize_in A B) tb_ins \<longrightarrow>
            (\<forall>c<length ins. unstabilized_rows Hs E P V
               (mode_comb (\<lambda>k. Q k c) (map (\<lambda>m. snd (snd m)) tb_outs))
               (mode_comb (\<lambda>k. Q k c) (map (\<lambda>m. fst (snd m)) tb_outs))
               (snd (tb_ins ! c)) (fst (tb_ins ! c)) (\<lambda>i. Psi i c))
            \<and> (\<forall>xiq phiq xim phim psi.
                 unstabilized_rows Hs E P V xiq phiq xim phim psi \<longleftrightarrow>
                 stabilized_rows Hs E P B (mv (dagger A) xiq) (mv (dagger B) phiq)
                   (mv (dagger A) xim) (mv (dagger B) phim) psi))
       \<and> S = map (\<lambda>k. map (\<lambda>c. Q k c) [0 ..< length ins]) (out_channels outs)
       \<and> set (out_channels outs) = {k. k < length outs \<and> fst (outs ! k)}
       \<and> sorted (out_channels outs) \<and> distinct (out_channels outs)"
proof (intro conjI allI impI)
  fix c
  assume "c < length ins"
  with ret show "stabilized_rows Hs E P B
            (mode_comb (\<lambda>k. Q k c) (map (\<lambda>m. snd (snd m)) outs))
            (mode_comb (\<lambda>k. Q k c) (map (\<lambda>m. fst (snd m)) outs))
            (snd (ins ! c)) (fst (ins ! c)) (\<lambda>i. Psi i c)"
    by (rule solve_scattering_rows)
next
  fix V :: "('n, 'n) cmat" and A :: "('n, 'r) cmat" and Al tb_outs tb_ins c
  assume h: "V = mm A (dagger B) \<and> mm Al A = mone
      \<and> outs = map (stabilize_out A B) tb_outs \<and> ins = map (stabilize_in A B) tb_ins"
    and c: "c < length ins"
  from h have V: "V = mm A (dagger B)" and Al: "mm Al A = mone"
    and outs: "outs = map (stabilize_out A B) tb_outs"
    and ins: "ins = map (stabilize_in A B) tb_ins"
    by simp_all
  from c have c': "c < length tb_ins"
    by (simp add: ins)
  from solve_scattering_rows [OF ret c]
  have "stabilized_rows Hs E P B
      (mv (dagger A) (mode_comb (\<lambda>k. Q k c) (map (\<lambda>m. snd (snd m)) tb_outs)))
      (mv (dagger B) (mode_comb (\<lambda>k. Q k c) (map (\<lambda>m. fst (snd m)) tb_outs)))
      (mv (dagger A) (snd (tb_ins ! c))) (mv (dagger B) (fst (tb_ins ! c))) (\<lambda>i. Psi i c)"
    unfolding outs stabilize_out_vectors mv_mode_comb [symmetric]
    using c' by (simp add: ins stabilize_in_def)
  then show "unstabilized_rows Hs E P V
      (mode_comb (\<lambda>k. Q k c) (map (\<lambda>m. snd (snd m)) tb_outs))
      (mode_comb (\<lambda>k. Q k c) (map (\<lambda>m. fst (snd m)) tb_outs))
      (snd (tb_ins ! c)) (fst (tb_ins ! c)) (\<lambda>i. Psi i c)"
    by (simp only: stabilized_rows_iff_unstabilized [OF V Al])
next
  fix V :: "('n, 'n) cmat" and A :: "('n, 'r) cmat" and Al tb_outs tb_ins
    and xiq phiq xim phim :: "'n cvec" and psi :: "'s cvec"
  assume h: "V = mm A (dagger B) \<and> mm Al A = mone
      \<and> outs = map (stabilize_out A B) tb_outs \<and> ins = map (stabilize_in A B) tb_ins"
  then have V: "V = mm A (dagger B)" and Al: "mm Al A = mone"
    by simp_all
  show "unstabilized_rows Hs E P V xiq phiq xim phim psi \<longleftrightarrow>
      stabilized_rows Hs E P B (mv (dagger A) xiq) (mv (dagger B) phiq)
        (mv (dagger A) xim) (mv (dagger B) phim) psi"
    by (simp only: stabilized_rows_iff_unstabilized [OF V Al])
next
  from ret show "S = map (\<lambda>k. map (\<lambda>c. Q k c) [0 ..< length ins]) (out_channels outs)"
    by (auto simp add: solve_scattering_def smatrix_rows_def split: option.splits)
next
  show "set (out_channels outs) = {k. k < length outs \<and> fst (outs ! k)}"
    by (auto simp add: out_channels_def)
next
  show "sorted (out_channels outs)"
    by (simp add: out_channels_def sorted_wrt_filter)
next
  show "distinct (out_channels outs)"
    by (simp add: out_channels_def)
qed

lemma tee_solution:
  "\<exists>Psi Q. solve_scattering tee_Hs 2 tee_P lad_one (map (stabilize_out ev_V lad_one) tee_outs)
       (map (stabilize_in ev_V lad_one) tee_ins) = Inr (Psi, Q, [[- \<i>]])
     \<and> Psi False 0 = (1 - \<i>) / 2 \<and> Psi True 0 = (1 - \<i>) / 2
     \<and> Q 0 0 = - \<i> \<and> Q 1 0 = (1 - \<i>) / 2"
  by (simp add: solve_scattering_def assemble_def unknowns_def out_channels_def smatrix_rows_def
      block_matrix_def right_hand_side_def stabilize_out_def stabilize_in_def enum_bool_def
      eliminate_def back_substitute_def tee_Hs_def tee_P_def tee_outs_def tee_ins_def
      lad_one_def ev_V_def mv_def dagger_def UNIV_bool complex_eq_iff Re_divide Im_divide
      power2_eq_square)

lemma tee_modes:
  "quad_residual ev_H ev_V 2 (- \<i>) (fst (snd (tee_outs ! 0))) = vzero"
  "quad_residual ev_H ev_V 2 (1 / 2) (fst (snd (tee_outs ! 1))) = vzero"
  "quad_residual ev_H ev_V 2 \<i> (fst (tee_ins ! 0)) = vzero"
  "snd (snd (tee_outs ! 0)) = smult (- \<i>) (fst (snd (tee_outs ! 0)))"
  "snd (snd (tee_outs ! 1)) = smult (1 / 2) (fst (snd (tee_outs ! 1)))"
  "snd (tee_ins ! 0) = smult \<i> (fst (tee_ins ! 0))"
  by (simp_all add: quad_residual_def tee_outs_def tee_ins_def ev_H_def ev_V_def vadd_def
      smult_def mv_def dagger_def shiftE_def vzero_def fun_eq_iff UNIV_bool complex_eq_iff
      power2_eq_square)

theorem stabilized_scattering_system_witness:
  "\<exists>Psi Q. solve_scattering tee_Hs 2 tee_P lad_one (map (stabilize_out ev_V lad_one) tee_outs)
       (map (stabilize_in ev_V lad_one) tee_ins) = Inr (Psi, Q, [[- \<i>]])
     \<and> Q 0 0 = - \<i> \<and> Q 1 0 = (1 - \<i>) / 2
     \<and> stabilized_rows tee_Hs 2 tee_P lad_one
          (mode_comb (\<lambda>k. Q k 0) (map (\<lambda>m. snd (snd m)) (map (stabilize_out ev_V lad_one) tee_outs)))
          (mode_comb (\<lambda>k. Q k 0) (map (\<lambda>m. fst (snd m)) (map (stabilize_out ev_V lad_one) tee_outs)))
          (snd (map (stabilize_in ev_V lad_one) tee_ins ! 0))
          (fst (map (stabilize_in ev_V lad_one) tee_ins ! 0)) (\<lambda>i. Psi i 0)
     \<and> unstabilized_rows tee_Hs 2 tee_P ev_V
          (mode_comb (\<lambda>k. Q k 0) (map (\<lambda>m. snd (snd m)) tee_outs))
          (mode_comb (\<lambda>k. Q k 0) (map (\<lambda>m. fst (snd m)) tee_outs))
          (snd (tee_ins ! 0)) (fst (tee_ins ! 0)) (\<lambda>i. Psi i 0)
     \<and> out_channels (map (stabilize_out ev_V lad_one) tee_outs) = [0]"
proof -
  from tee_solution obtain Psi Q
    where ret: "solve_scattering tee_Hs 2 tee_P lad_one (map (stabilize_out ev_V lad_one) tee_outs)
        (map (stabilize_in ev_V lad_one) tee_ins) = Inr (Psi, Q, [[- \<i>]])"
      and q: "Q 0 0 = - \<i>" "Q 1 0 = (1 - \<i>) / 2"
    by blast
  note w = stabilized_scattering_system [OF ret]
  have V: "ev_V = mm ev_V (dagger lad_one)"
    by (simp add: mm_def dagger_def ev_V_def lad_one_def fun_eq_iff UNIV_bool)
  have Al: "mm (msmult 2 lad_one) ev_V = mone"
    by (simp add: mm_def msmult_def mone_def ev_V_def lad_one_def fun_eq_iff UNIV_bool)
  have len: "(0::nat) < length (map (stabilize_in ev_V lad_one) tee_ins)"
    by (simp add: tee_ins_def)
  from w have "\<forall>c<length (map (stabilize_in ev_V lad_one) tee_ins). stabilized_rows tee_Hs 2 tee_P lad_one
      (mode_comb (\<lambda>k. Q k c) (map (\<lambda>m. snd (snd m)) (map (stabilize_out ev_V lad_one) tee_outs)))
      (mode_comb (\<lambda>k. Q k c) (map (\<lambda>m. fst (snd m)) (map (stabilize_out ev_V lad_one) tee_outs)))
      (snd (map (stabilize_in ev_V lad_one) tee_ins ! c))
      (fst (map (stabilize_in ev_V lad_one) tee_ins ! c)) (\<lambda>i. Psi i c)"
    by (rule conjunct1)
  with len have s: "stabilized_rows tee_Hs 2 tee_P lad_one
      (mode_comb (\<lambda>k. Q k 0) (map (\<lambda>m. snd (snd m)) (map (stabilize_out ev_V lad_one) tee_outs)))
      (mode_comb (\<lambda>k. Q k 0) (map (\<lambda>m. fst (snd m)) (map (stabilize_out ev_V lad_one) tee_outs)))
      (snd (map (stabilize_in ev_V lad_one) tee_ins ! 0))
      (fst (map (stabilize_in ev_V lad_one) tee_ins ! 0)) (\<lambda>i. Psi i 0)"
    by blast
  from w have "\<forall>V A Al tb_outs tb_ins. V = mm A (dagger lad_one) \<and> mm Al A = mone
      \<and> map (stabilize_out ev_V lad_one) tee_outs = map (stabilize_out A lad_one) tb_outs
      \<and> map (stabilize_in ev_V lad_one) tee_ins = map (stabilize_in A lad_one) tb_ins \<longrightarrow>
      (\<forall>c<length (map (stabilize_in ev_V lad_one) tee_ins). unstabilized_rows tee_Hs 2 tee_P V
         (mode_comb (\<lambda>k. Q k c) (map (\<lambda>m. snd (snd m)) tb_outs))
         (mode_comb (\<lambda>k. Q k c) (map (\<lambda>m. fst (snd m)) tb_outs))
         (snd (tb_ins ! c)) (fst (tb_ins ! c)) (\<lambda>i. Psi i c))
      \<and> (\<forall>xiq phiq xim phim psi.
           unstabilized_rows tee_Hs 2 tee_P V xiq phiq xim phim psi \<longleftrightarrow>
           stabilized_rows tee_Hs 2 tee_P lad_one (mv (dagger A) xiq) (mv (dagger lad_one) phiq)
             (mv (dagger A) xim) (mv (dagger lad_one) phim) psi)"
    by (elim conjE)
  with V Al have "\<forall>c<length (map (stabilize_in ev_V lad_one) tee_ins). unstabilized_rows tee_Hs 2 tee_P ev_V
         (mode_comb (\<lambda>k. Q k c) (map (\<lambda>m. snd (snd m)) tee_outs))
         (mode_comb (\<lambda>k. Q k c) (map (\<lambda>m. fst (snd m)) tee_outs))
         (snd (tee_ins ! c)) (fst (tee_ins ! c)) (\<lambda>i. Psi i c)"
    by blast
  with len have u: "unstabilized_rows tee_Hs 2 tee_P ev_V
      (mode_comb (\<lambda>k. Q k 0) (map (\<lambda>m. snd (snd m)) tee_outs))
      (mode_comb (\<lambda>k. Q k 0) (map (\<lambda>m. fst (snd m)) tee_outs))
      (snd (tee_ins ! 0)) (fst (tee_ins ! 0)) (\<lambda>i. Psi i 0)"
    by blast
  have o: "out_channels (map (stabilize_out ev_V lad_one) tee_outs) = [0]"
    by (simp add: out_channels_def stabilize_out_def tee_outs_def)
  from ret q s u o show ?thesis
    by blast
qed

section \<open>Properties of the velocity\<close>

lemma cdot_smult_right: "cdot x (smult c y) = c * cdot x y"
  by (simp add: cdot_def smult_def sum_distrib_left mult_ac)

lemma cdot_smult_left: "cdot (smult c x) y = cnj c * cdot x y"
  by (simp add: cdot_def smult_def sum_distrib_left mult_ac)

lemma cdot_adjoint: "cdot x (mv M y) = cdot (mv (dagger M) x) y"
proof -
  have "cdot x (mv M y) = (\<Sum>i\<in>UNIV. \<Sum>j\<in>UNIV. cnj (x i) * M i j * y j)"
    by (simp add: cdot_def mv_def sum_distrib_left mult.assoc)
  also have "\<dots> = (\<Sum>j\<in>UNIV. \<Sum>i\<in>UNIV. cnj (x i) * M i j * y j)"
    by (rule sum.swap)
  also have "\<dots> = cdot (mv (dagger M) x) y"
    by (simp add: cdot_def mv_def dagger_def sum_distrib_left sum_distrib_right mult_ac)
  finally show ?thesis .
qed

lemma cnj_cdot: "cnj (cdot x y) = cdot y x"
  by (simp add: cdot_def mult.commute)

lemma velocity_c_smult:
  "velocity_c V lam (smult c phi) = complex_of_real ((cmod c)\<^sup>2) * velocity_c V lam phi"
proof -
  have "cnj c * c = complex_of_real ((cmod c)\<^sup>2)"
    by (simp only: complex_norm_square mult.commute)
  then show ?thesis
    by (simp add: velocity_c_def mv_smult cdot_smult_left cdot_smult_right mult_ac)
qed

lemma velocity_smult: "velocity V lam (smult c phi) = (cmod c)\<^sup>2 * velocity V lam phi"
  by (simp add: velocity_def velocity_c_smult)

lemma velocity_normalize:
  "velocity V lam (normalize_mode V lam phi) = sgn (velocity V lam phi)"
proof -
  let ?v = "velocity V lam phi"
  have "(cmod (complex_of_real (1 / sqrt \<bar>?v\<bar>)))\<^sup>2 = 1 / \<bar>?v\<bar>"
    by (simp add: norm_divide power_divide)
  then have "velocity V lam (normalize_mode V lam phi) = (1 / \<bar>?v\<bar>) * ?v"
    unfolding normalize_mode_def velocity_smult by simp
  also have "\<dots> = sgn ?v"
    by (simp add: sgn_real_def)
  finally show ?thesis .
qed

lemma velocity_c_real:
  assumes "cmod lam = 1"
  shows "velocity_c V lam phi = complex_of_real (velocity V lam phi)"
proof -
  let ?X = "madd (msmult lam (dagger V)) (msmult (- inverse lam) V)"
  let ?z = "cdot phi (mv ?X phi)"
  have li: "inverse lam = cnj lam"
    using assms complex_div_cnj [of 1 lam] by (simp add: inverse_eq_divide)
  have "dagger ?X = msmult (- 1) ?X"
    by (auto simp add: dagger_def madd_def msmult_def li fun_eq_iff)
  then have "cdot (mv ?X phi) phi = - ?z"
    using cdot_adjoint [of "mv ?X phi" "mone" phi, symmetric] cdot_adjoint [of phi ?X phi]
    by (simp add: mv_msmult cdot_smult_left)
  then have "cnj ?z = - ?z"
    by (simp only: cnj_cdot)
  then have "Re (cnj ?z) = Re (- ?z)"
    by (rule arg_cong)
  then have "Re ?z = 0"
    by simp
  then show ?thesis
    by (simp add: velocity_def velocity_c_def complex_eq_iff)
qed

text \<open>
  C5. A mode classified as propagating has, after rescaling, a velocity of modulus 1
  (the source's expression \<open>i \<phi>\<^sup>\<dagger> (\<lambda> V\<^sup>\<dagger> - \<lambda>\<^sup>-\<^sup>1 V) \<phi>\<close> itself when \<open>|\<lambda>| = 1\<close>); its
  direction is given by the sign of the velocity, positive for outgoing and negative for
  incoming, and rescaling does not change that sign. A mode whose velocity is below the
  threshold is not propagating: it is classified as evanescent.
\<close>

theorem propagating_mode_normalisation:
  assumes "0 < vtol"
  shows "(classify_mode ltol vtol V lam phi = Propagating d \<longrightarrow>
            \<bar>velocity V lam (normalize_mode V lam phi)\<bar> = 1
            \<and> (cmod lam = 1 \<longrightarrow> cmod (velocity_c V lam (normalize_mode V lam phi)) = 1)
            \<and> (d = Outgoing \<longleftrightarrow> 0 < velocity V lam phi)
            \<and> (d = Incoming \<longleftrightarrow> velocity V lam phi < 0)
            \<and> (0 < velocity V lam (normalize_mode V lam phi) \<longleftrightarrow> 0 < velocity V lam phi))
       \<and> (\<bar>velocity V lam phi\<bar> < vtol \<longrightarrow> classify_mode ltol vtol V lam phi = Evanescent)"
proof (intro conjI impI)
  assume c: "classify_mode ltol vtol V lam phi = Propagating d"
  then have v: "\<not> \<bar>velocity V lam phi\<bar> < vtol"
    and d: "d = (if 0 < velocity V lam phi then Outgoing else Incoming)"
    by (simp_all add: classify_mode_def split: if_splits)
  from v assms have nz: "velocity V lam phi \<noteq> 0" by auto
  show n: "\<bar>velocity V lam (normalize_mode V lam phi)\<bar> = 1"
    using nz by (simp add: velocity_normalize sgn_real_def)
  show "d = Outgoing \<longleftrightarrow> 0 < velocity V lam phi"
    using d by simp
  show "d = Incoming \<longleftrightarrow> velocity V lam phi < 0"
    using d nz by auto
  show "0 < velocity V lam (normalize_mode V lam phi) \<longleftrightarrow> 0 < velocity V lam phi"
    by (simp add: velocity_normalize)
  assume "cmod lam = 1"
  then have "velocity_c V lam (normalize_mode V lam phi)
      = complex_of_real (velocity V lam (normalize_mode V lam phi))"
    by (rule velocity_c_real)
  then show "cmod (velocity_c V lam (normalize_mode V lam phi)) = 1"
    using n by simp
next
  assume "\<bar>velocity V lam phi\<bar> < vtol"
  then show "classify_mode ltol vtol V lam phi = Evanescent"
    by (simp add: classify_mode_def)
qed

lemma chain_velocity_example: "velocity (\<lambda>(i::unit) (j::unit). 1) (- \<i>) (\<lambda>i. 1) = 2"
  by (simp add: velocity_def velocity_c_def cdot_def mv_def madd_def msmult_def dagger_def)

lemma velocity_mzero [simp]: "velocity mzero lam phi = 0"
  by (simp add: velocity_def velocity_c_def cdot_def mv_def madd_def msmult_def dagger_def
      mzero_def)

theorem propagating_mode_normalisation_witness:
  "(0::real) < 1
   \<and> classify_mode 0 1 (\<lambda>(i::unit) (j::unit). 1) (- \<i>) (\<lambda>i. 1) = Propagating Outgoing
   \<and> cmod (- \<i>) = 1
   \<and> \<bar>velocity (\<lambda>(i::unit) (j::unit). 1) (- \<i>)
         (normalize_mode (\<lambda>(i::unit) (j::unit). 1) (- \<i>) (\<lambda>i. 1))\<bar> = 1
   \<and> cmod (velocity_c (\<lambda>(i::unit) (j::unit). 1) (- \<i>)
         (normalize_mode (\<lambda>(i::unit) (j::unit). 1) (- \<i>) (\<lambda>i. 1))) = 1
   \<and> \<bar>velocity (mzero :: (unit, unit) cmat) \<i> (\<lambda>i. 1)\<bar> < 1
   \<and> classify_mode 0 1 (mzero :: (unit, unit) cmat) \<i> (\<lambda>i. 1) = Evanescent"
proof -
  have p: "(0::real) < 1" by simp
  have c: "classify_mode 0 1 (\<lambda>(i::unit) (j::unit). 1) (- \<i>) (\<lambda>i. 1) = Propagating Outgoing"
    by (simp add: classify_mode_def chain_velocity_example)
  have l: "cmod (- \<i>) = 1" by simp
  have z: "\<bar>velocity (mzero :: (unit, unit) cmat) \<i> (\<lambda>i. 1)\<bar> < 1" by simp
  from propagating_mode_normalisation [OF p, where ltol = 0 and V = "\<lambda>(i::unit) (j::unit). 1"
      and lam = "- \<i>" and phi = "\<lambda>i. 1" and d = Outgoing]
    propagating_mode_normalisation [OF p, where ltol = 0 and V = "mzero :: (unit, unit) cmat"
      and lam = \<i> and phi = "\<lambda>i. 1" and d = Outgoing]
    p c l z
  show ?thesis by blast
qed

section \<open>Modes of the single-band chain\<close>

lemma chain_quad:
  "quad_residual (chain_H t) (chain_V t) E lam phi ()
     = phi () * (complex_of_real t + lam * complex_of_real (2 * t - E) + lam\<^sup>2 * complex_of_real t)"
  by (simp add: quad_residual_def chain_H_def chain_V_def vadd_def smult_def mv_def dagger_def
      shiftE_def UNIV_unit) (simp add: algebra_simps)

lemma chain_factor:
  "1 + lam * complex_of_real (2 * cos th) + lam\<^sup>2 = (lam + cis th) * (lam + cis (- th))"
proof -
  have a: "cis th + cis (- th) = complex_of_real (2 * cos th)"
    by (simp add: complex_eq_iff)
  have b: "cis th * cis (- th) = 1"
    by (simp add: cis_mult)
  have "(lam + cis th) * (lam + cis (- th))
      = lam\<^sup>2 + lam * (cis th + cis (- th)) + cis th * cis (- th)"
    by (simp add: algebra_simps power2_eq_square)
  then show ?thesis
    by (simp only: a b) (simp add: algebra_simps)
qed

lemma chain_velocity:
  "velocity_c (chain_V t) lam chain_phi = \<i> * complex_of_real t * (lam - inverse lam)"
  by (simp add: velocity_c_def chain_V_def chain_phi_def cdot_def mv_def madd_def msmult_def
      dagger_def UNIV_unit) (simp add: algebra_simps)

lemma chain_velocity_out: "velocity (chain_V t) (- cis th) chain_phi = 2 * t * sin th"
  by (simp add: velocity_def chain_velocity)

lemma chain_velocity_in: "velocity (chain_V t) (- cis (- th)) chain_phi = - (2 * t * sin th)"
  by (simp add: velocity_def chain_velocity)

lemma chain_theta_props:
  assumes "0 < E" and "E < 4 * t"
  shows "0 < chain_theta t E" and "chain_theta t E < pi"
    and "E = 2 * t - 2 * t * cos (chain_theta t E)"
proof -
  have t: "0 < t" using assms by simp
  have lo: "- 1 < 1 - E / (2 * t)" and hi: "1 - E / (2 * t) < 1"
    using assms t by (simp_all add: field_simps)
  from arccos_lt_bounded [OF lo hi]
  show "0 < chain_theta t E" and "chain_theta t E < pi"
    by (simp_all add: chain_theta_def)
  have "cos (chain_theta t E) = 1 - E / (2 * t)"
    unfolding chain_theta_def using lo hi by (intro cos_arccos) simp_all
  then show "E = 2 * t - 2 * t * cos (chain_theta t E)"
    using t by (simp add: field_simps)
qed

text \<open>
  C8, amended. For the chain with \<open>H = [2 t]\<close>, \<open>V = [t]\<close> and \<open>0 < E < 4 t\<close>, let \<open>\<theta>\<close> in
  \<open>(0, \<pi>)\<close> be given by \<open>E = 2 t - 2 t cos \<theta>\<close>. The solutions of the mode problem are exactly
  \<open>\<lambda> = - exp (\<plusminus> i \<theta>)\<close>: two different eigenvalues of modulus 1, the first with velocity
  \<open>2 t sin \<theta> > 0\<close> (outgoing) and the second with velocity \<open>- 2 t sin \<theta> < 0\<close> (incoming) for
  the unit wavefunction.
\<close>

theorem chain_modes:
  assumes "0 < E" and "E < 4 * t"
  shows "0 < chain_theta t E \<and> chain_theta t E < pi
       \<and> E = 2 * t - 2 * t * cos (chain_theta t E)
       \<and> (\<forall>lam phi. phi \<noteq> vzero \<longrightarrow>
            (quad_residual (chain_H t) (chain_V t) E lam phi = vzero
             \<longleftrightarrow> lam = - cis (chain_theta t E) \<or> lam = - cis (- chain_theta t E)))
       \<and> - cis (chain_theta t E) \<noteq> - cis (- chain_theta t E)
       \<and> cmod (- cis (chain_theta t E)) = 1 \<and> cmod (- cis (- chain_theta t E)) = 1
       \<and> velocity (chain_V t) (- cis (chain_theta t E)) chain_phi = 2 * t * sin (chain_theta t E)
       \<and> velocity (chain_V t) (- cis (- chain_theta t E)) chain_phi = - (2 * t * sin (chain_theta t E))
       \<and> 0 < 2 * t * sin (chain_theta t E)"
proof -
  let ?th = "chain_theta t E"
  note th = chain_theta_props [OF assms]
  have t: "0 < t" using assms by simp
  have s: "0 < sin ?th" using th(1,2) by (rule sin_gt_zero)
  have E: "2 * t - E = t * (2 * cos ?th)"
    using th(3) by (simp add: algebra_simps)
  have roots: "quad_residual (chain_H t) (chain_V t) E lam phi = vzero
      \<longleftrightarrow> lam = - cis ?th \<or> lam = - cis (- ?th)" if p: "phi \<noteq> vzero" for lam phi
  proof -
    from p have p0: "phi () \<noteq> 0" by (auto simp add: vzero_def fun_eq_iff)
    have "complex_of_real t + lam * complex_of_real (2 * t - E) + lam\<^sup>2 * complex_of_real t
        = complex_of_real t * (1 + lam * complex_of_real (2 * cos ?th) + lam\<^sup>2)"
      unfolding E by (simp add: algebra_simps)
    also have "\<dots> = complex_of_real t * ((lam + cis ?th) * (lam + cis (- ?th)))"
      by (simp only: chain_factor)
    finally have "quad_residual (chain_H t) (chain_V t) E lam phi ()
        = phi () * (complex_of_real t * ((lam + cis ?th) * (lam + cis (- ?th))))"
      by (simp only: chain_quad)
    then have "quad_residual (chain_H t) (chain_V t) E lam phi () = 0
        \<longleftrightarrow> lam + cis ?th = 0 \<or> lam + cis (- ?th) = 0"
      using p0 t by simp
    then show ?thesis
      by (simp add: fun_eq_iff vzero_def add_eq_0_iff2)
  qed
  have ne: "- cis ?th \<noteq> - cis (- ?th)"
    using s by (simp add: complex_eq_iff)
  show ?thesis
    using th roots ne s t
    by (simp add: chain_velocity_out chain_velocity_in norm_minus_cancel)
qed

theorem chain_modes_witness:
  "(0::real) < 1 \<and> (1::real) < 4 * 1
   \<and> chain_theta 1 1 = pi / 3
   \<and> chain_phi \<noteq> vzero
   \<and> quad_residual (chain_H 1) (chain_V 1) 1 (- cis (pi / 3)) chain_phi = vzero
   \<and> velocity (chain_V 1) (- cis (pi / 3)) chain_phi = sqrt 3"
proof -
  have a: "(0::real) < 1" and b: "(1::real) < 4 * 1" by simp_all
  have th: "chain_theta 1 1 = pi / 3" by (simp add: chain_theta_def)
  have p: "chain_phi \<noteq> vzero" by (simp add: chain_phi_def vzero_def fun_eq_iff)
  from chain_modes [OF a b] p
  have "quad_residual (chain_H 1) (chain_V 1) 1 (- cis (chain_theta 1 1)) chain_phi = vzero"
    and "velocity (chain_V 1) (- cis (chain_theta 1 1)) chain_phi = 2 * 1 * sin (chain_theta 1 1)"
    by blast+
  then show ?thesis using a b th p by (simp add: sin_60)
qed

text \<open>
  C8 as stated, with the eigenvalues \<open>exp (\<plusminus> i \<theta>)\<close>, does not hold: for \<open>t = 1\<close>, \<open>E = 1\<close> the
  angle with \<open>E = 2 t - 2 t cos \<theta>\<close> is \<open>\<theta> = \<pi> / 3\<close>, and neither \<open>exp (i \<theta>)\<close> nor
  \<open>exp (- i \<theta>)\<close> satisfies the quadratic relation of the chain.
\<close>

theorem chain_modes_counterexample:
  "2 * 1 - 2 * 1 * cos (pi / 3) = (1::real)
   \<and> quad_residual (chain_H 1) (chain_V 1) 1 (cis (pi / 3)) chain_phi () \<noteq> 0
   \<and> quad_residual (chain_H 1) (chain_V 1) 1 (cis (- (pi / 3))) chain_phi () \<noteq> 0"
  by (simp add: chain_quad chain_phi_def cos_60 sin_60 complex_eq_iff power2_eq_square
      cis.ctr)

section \<open>Unitarity of the scattering matrix\<close>

lemma dagger_madd: "dagger (madd A B) = madd (dagger A) (dagger B)"
  by (simp add: dagger_def madd_def)

lemma madd_assoc: "madd (madd A B) C = madd A (madd B C)"
  by (simp add: madd_def add.assoc)

lemma madd_commute: "madd A B = madd B A"
  by (simp add: madd_def add.commute)

lemma madd_left_commute: "madd A (madd B C) = madd B (madd A C)"
  by (simp add: madd_def add.left_commute)

lemmas madd_ac = madd_assoc madd_commute madd_left_commute

lemma msmult_madd: "msmult c (madd A B) = madd (msmult c A) (msmult c B)"
  by (simp add: msmult_def madd_def distrib_left)

lemma hermitian_shiftE:
  assumes "hermitian H"
  shows "dagger (shiftE H E) = shiftE H E"
proof (intro ext)
  fix i j
  from assms have "cnj (H j i) = H i j"
    by (simp add: hermitian_def dagger_def fun_eq_iff)
  then show "dagger (shiftE H E) i j = shiftE H E i j"
    by (auto simp add: dagger_def shiftE_def)
qed

lemma scattering_current_balance:
  assumes Hs: "hermitian Hs" and P: "mtranspose P = dagger P"
    and sys: "unstabilized_system Hs E P V Phip Lamp Phim Lamm (Psi, Q)"
  shows "mm (dagger (madd (mm Phip Q) Phim))
            (mm (dagger V) (madd (mm (mm Phip Lamp) Q) (mm Phim Lamm)))
         = mm (dagger (madd (mm (mm Phip Lamp) Q) (mm Phim Lamm)))
            (mm V (madd (mm Phip Q) Phim))"
proof -
  define psi0 where "psi0 = madd (mm Phip Q) Phim"
  define psi1 where "psi1 = madd (mm (mm Phip Lamp) Q) (mm Phim Lamm)"
  define S where "S = shiftE Hs E"
  have dS: "dagger S = S"
    unfolding S_def using Hs by (rule hermitian_shiftE)
  from sys have r1: "madd (mm S Psi) (mm (mm (mtranspose P) (mm (dagger V) (mm Phip Lamp))) Q)
      = msmult (- 1) (mm (mtranspose P) (mm (dagger V) (mm Phim Lamm)))"
    and r2: "madd (mm (mm V P) Psi) (mm (msmult (- 1) (mm V Phip)) Q) = mm V Phim"
    by (simp_all add: S_def)
  have row1: "mm (dagger P) (mm (dagger V) psi1) = msmult (- 1) (mm S Psi)"
  proof (intro ext)
    fix i j
    from r1 have "madd (mm S Psi) (mm (mm (dagger P) (mm (dagger V) (mm Phip Lamp))) Q) i j
      = msmult (- 1) (mm (dagger P) (mm (dagger V) (mm Phim Lamm))) i j"
      by (simp add: P)
    then show "mm (dagger P) (mm (dagger V) psi1) i j = msmult (- 1) (mm S Psi) i j"
      unfolding psi1_def mm_madd mm_assoc
      by (simp add: madd_def msmult_def mm_assoc) algebra
  qed
  have row2: "mm V (mm P Psi) = mm V psi0"
  proof (intro ext)
    fix i j
    from r2 have "madd (mm (mm V P) Psi) (mm (msmult (- 1) (mm V Phip)) Q) i j = mm V Phim i j"
      by simp
    then show "mm V (mm P Psi) i j = mm V psi0 i j"
      unfolding psi0_def mm_madd mm_assoc mm_msmult
      by (simp add: madd_def msmult_def mm_assoc diff_eq_eq add.commute)
  qed
  define X where "X = mm (dagger psi0) (mm (dagger V) psi1)"
  have "mm (dagger psi0) (dagger V) = dagger (mm V psi0)"
    by (simp add: dagger_mm)
  also have "\<dots> = mm (dagger Psi) (mm (dagger P) (dagger V))"
    by (simp add: row2 [symmetric] dagger_mm mm_assoc)
  finally have "X = mm (mm (dagger Psi) (mm (dagger P) (dagger V))) psi1"
    by (simp add: X_def mm_assoc [symmetric])
  then have X1: "X = msmult (- 1) (mm (dagger Psi) (mm S Psi))"
    by (simp add: mm_assoc row1 mm_msmult)
  have "dagger X = msmult (- 1) (mm (dagger Psi) (mm (dagger S) Psi))"
    unfolding X1 by (simp add: dagger_msmult dagger_mm mm_assoc)
  then have "dagger X = X"
    by (simp add: dS X1)
  moreover have "dagger X = mm (dagger psi1) (mm V psi0)"
    by (simp add: X_def dagger_mm mm_assoc)
  ultimately show ?thesis
    by (simp add: X_def psi0_def psi1_def)
qed

lemma madd_mzero [simp]: "madd A mzero = A" "madd mzero A = A"
  by (simp_all add: madd_def mzero_def)

lemma msmult_mzero [simp]: "msmult c mzero = mzero"
  by (simp add: msmult_def mzero_def)

lemma mm_mzero_left [simp]: "mm mzero A = mzero"
  by (simp add: mm_def mzero_def)

lemma mm_mzero_right [simp]: "mm A mzero = mzero"
  by (simp add: mm_def mzero_def)

lemma dagger_mzero [simp]: "dagger mzero = mzero"
  by (simp add: dagger_def mzero_def)

lemma current_form_apply:
  "mm (dagger Phi1) (mm (dagger V) (mm Phi2 (mm Lam2 X)))
     = madd (mm (dagger Lam1) (mm (dagger Phi1) (mm V (mm Phi2 X))))
            (msmult (- \<i>) (mm (current_form V Phi1 Lam1 Phi2 Lam2) X))"
proof -
  have "mm (current_form V Phi1 Lam1 Phi2 Lam2) X
      = msmult \<i> (madd (mm (dagger Phi1) (mm (dagger V) (mm Phi2 (mm Lam2 X))))
          (msmult (- 1) (mm (dagger Lam1) (mm (dagger Phi1) (mm V (mm Phi2 X))))))"
    by (simp add: current_form_def mm_msmult mm_madd mm_assoc)
  then show ?thesis
    by (simp add: madd_def msmult_def fun_eq_iff)
qed

lemma current_form_split:
  "mm (dagger Phi1) (mm (dagger V) (mm Phi2 Lam2))
     = madd (mm (dagger Lam1) (mm (dagger Phi1) (mm V Phi2)))
            (msmult (- \<i>) (current_form V Phi1 Lam1 Phi2 Lam2))"
  using current_form_apply [of Phi1 V Phi2 Lam2 mone Lam1] by simp

lemma dagger_current_form:
  "dagger (current_form V Phi1 Lam1 Phi2 Lam2) = current_form V Phi2 Lam2 Phi1 Lam1"
proof -
  have "dagger (mm (dagger Phi1) (mm (dagger V) (mm Phi2 Lam2)))
      = mm (dagger Lam2) (mm (dagger Phi2) (mm V Phi1))"
    by (simp add: dagger_mm mm_assoc)
  moreover have "dagger (mm (dagger Lam1) (mm (dagger Phi1) (mm V Phi2)))
      = mm (dagger Phi2) (mm (dagger V) (mm Phi1 Lam1))"
    by (simp add: dagger_mm mm_assoc)
  ultimately show ?thesis
    by (simp add: current_form_def dagger_msmult dagger_madd)
      (simp add: madd_def msmult_def fun_eq_iff algebra_simps)
qed

lemma signature_sandwich:
  fixes sel :: "'p::finite \<Rightarrow> 'o::finite"
  assumes "inj sel"
  shows "mm (dagger Q) (mm (channel_signature sel) Q)
         = mm (dagger (smatrix sel Q)) (smatrix sel Q)"
proof (intro ext)
  fix j k
  have inner: "(\<Sum>b\<in>UNIV. channel_signature sel a b * Q b k)
      = (if a \<in> range sel then Q a k else 0)" for a
  proof -
    have "(\<Sum>b\<in>UNIV. channel_signature sel a b * Q b k)
        = (\<Sum>b\<in>UNIV. if a = b then (if a \<in> range sel then Q b k else 0) else 0)"
      by (rule sum.cong) (simp_all add: channel_signature_def)
    then show ?thesis by (simp add: sum.delta)
  qed
  have "mm (dagger Q) (mm (channel_signature sel) Q) j k
      = (\<Sum>a\<in>UNIV. if a \<in> range sel then cnj (Q a j) * Q a k else 0)"
    unfolding mm_def dagger_def inner by (rule sum.cong) simp_all
  also have "\<dots> = (\<Sum>a\<in>range sel. cnj (Q a j) * Q a k)"
    using sum.inter_restrict [of UNIV "\<lambda>a. cnj (Q a j) * Q a k" "range sel"] by simp
  also have "\<dots> = (\<Sum>p\<in>UNIV. cnj (Q (sel p) j) * Q (sel p) k)"
    using assms by (simp add: sum.reindex)
  also have "\<dots> = mm (dagger (smatrix sel Q)) (smatrix sel Q) j k"
    by (simp add: mm_def dagger_def smatrix_def)
  finally show "mm (dagger Q) (mm (channel_signature sel) Q) j k
      = mm (dagger (smatrix sel Q)) (smatrix sel Q) j k" .
qed

lemma current_normalised_unitary:
  fixes sel :: "'p::finite \<Rightarrow> 'o::finite"
  assumes Hs: "hermitian Hs" and P: "mtranspose P = dagger P"
    and sys: "unstabilized_system Hs E P V Phip Lamp Phim Lamm (Psi, Q)"
    and sel: "inj sel"
    and Kpp: "current_form V Phip Lamp Phip Lamp = channel_signature sel"
    and Kpm: "current_form V Phip Lamp Phim Lamm = mzero"
    and Kmm: "current_form V Phim Lamm Phim Lamm = msmult (- 1) mone"
  shows "mm (dagger (smatrix sel Q)) (smatrix sel Q) = mone"
proof -
  have Kmp: "current_form V Phim Lamm Phip Lamp = mzero"
    using dagger_current_form [of V Phip Lamp Phim Lamm]
    by (simp add: Kpm dagger_def mzero_def)
  define u1 where "u1 = mm (dagger Q) (mm (dagger Lamp) (mm (dagger Phip) (mm V (mm Phip Q))))"
  define u2 where "u2 = mm (dagger Q) (mm (dagger Lamp) (mm (dagger Phip) (mm V Phim)))"
  define u3 where "u3 = mm (dagger Lamm) (mm (dagger Phim) (mm V (mm Phip Q)))"
  define u4 where "u4 = mm (dagger Lamm) (mm (dagger Phim) (mm V Phim))"
  define D where "D = mm (dagger Q) (mm (channel_signature sel) Q)"
  have t1: "mm (dagger Q) (mm (dagger Phip) (mm (dagger V) (mm Phip (mm Lamp Q))))
      = madd u1 (msmult (- \<i>) D)"
    by (simp add: current_form_apply [of Phip V Phip Lamp Q Lamp] Kpp mm_madd mm_msmult
        u1_def D_def)
  have t2: "mm (dagger Q) (mm (dagger Phip) (mm (dagger V) (mm Phim Lamm))) = u2"
    by (simp add: current_form_split [of Phip V Phim Lamm Lamp] Kpm u2_def)
  have t3: "mm (dagger Phim) (mm (dagger V) (mm Phip (mm Lamp Q))) = u3"
    by (simp add: current_form_apply [of Phim V Phip Lamp Q Lamm] Kmp u3_def)
  have t4: "mm (dagger Phim) (mm (dagger V) (mm Phim Lamm)) = madd u4 (msmult \<i> mone)"
    by (simp add: current_form_split [of Phim V Phim Lamm Lamm] Kmm u4_def)
  have T: "mm (dagger (madd (mm Phip Q) Phim))
            (mm (dagger V) (madd (mm (mm Phip Lamp) Q) (mm Phim Lamm)))
      = madd (madd u1 (msmult (- \<i>) D)) (madd u2 (madd u3 (madd u4 (msmult \<i> mone))))"
    by (simp add: dagger_madd dagger_mm mm_madd mm_assoc t1 t2 t3 t4 madd_ac)
  have U: "mm (dagger (madd (mm (mm Phip Lamp) Q) (mm Phim Lamm)))
            (mm V (madd (mm Phip Q) Phim))
      = madd u1 (madd u2 (madd u3 u4))"
    by (simp add: dagger_madd dagger_mm mm_madd mm_assoc u1_def u2_def u3_def u4_def madd_ac)
  from scattering_current_balance [OF Hs P sys]
  have eq: "madd (madd u1 (msmult (- \<i>) D)) (madd u2 (madd u3 (madd u4 (msmult \<i> mone))))
      = madd u1 (madd u2 (madd u3 u4))"
    by (simp only: T U)
  have "D = mone"
  proof (intro ext)
    fix j k
    from eq have "madd (madd u1 (msmult (- \<i>) D)) (madd u2 (madd u3 (madd u4 (msmult \<i> mone)))) j k
      = madd u1 (madd u2 (madd u3 u4)) j k"
      by simp
    then have "\<i> * (mone j k - D j k) = 0"
      by (simp add: madd_def msmult_def algebra_simps)
    then show "D j k = mone j k" by simp
  qed
  then show ?thesis
    by (simp add: D_def signature_sandwich [OF sel])
qed

subsection \<open>Currents between eigenmodes\<close>

lemma cdot_vadd_right: "cdot x (vadd y z) = cdot x y + cdot x z"
  by (simp add: cdot_def vadd_def distrib_left sum.distrib)

lemma cdot_vadd_left: "cdot (vadd x y) z = cdot x z + cdot y z"
  by (simp add: cdot_def vadd_def distrib_right sum.distrib)

lemma cdot_vzero [simp]: "cdot x vzero = 0" "cdot vzero x = 0"
  by (simp_all add: cdot_def vzero_def)

lemma cdot_adjoint_left: "cdot (mv M x) y = cdot x (mv (dagger M) y)"
  using cdot_adjoint [of x "dagger M" y] by simp

lemma current_orthogonality:
  assumes H: "hermitian H"
    and qa: "quad_residual H V E la pa = vzero"
    and qb: "quad_residual H V E lb pb = vzero"
  shows "(1 - cnj la * lb) * (lb * cdot pa (mv (dagger V) pb) - cnj la * cdot pa (mv V pb)) = 0"
proof -
  define x y h where "x = cdot pa (mv V pb)" and "y = cdot pa (mv (dagger V) pb)"
    and "h = cdot pa (mv (shiftE H E) pb)"
  have "cdot pa (quad_residual H V E lb pb) = 0"
    by (simp add: qb)
  then have e1: "x + (lb * h + lb\<^sup>2 * y) = 0"
    by (simp add: quad_residual_def cdot_vadd_right cdot_smult_right x_def y_def h_def)
  have "cdot (quad_residual H V E la pa) pb = 0"
    by (simp add: qa)
  then have e2: "y + (cnj la * h + (cnj la)\<^sup>2 * x) = 0"
    by (simp add: quad_residual_def cdot_vadd_left cdot_smult_left cdot_adjoint_left
        hermitian_shiftE [OF H] x_def y_def h_def)
  have "(1 - cnj la * lb) * (lb * y - cnj la * x)
      = lb * (y + (cnj la * h + (cnj la)\<^sup>2 * x)) - cnj la * (x + (lb * h + lb\<^sup>2 * y))"
    by (simp add: algebra_simps power2_eq_square)
  then show ?thesis
    by (simp add: e1 e2 x_def [symmetric] y_def [symmetric])
qed

lemma sandwich_entry: "mm (dagger Phi1) (mm M Phi2) a b = cdot (col Phi1 a) (mv M (col Phi2 b))"
  by (simp add: mm_def dagger_def cdot_def mv_def col_def)

lemma velocity_c_expand:
  "velocity_c V lam phi
     = \<i> * (lam * cdot phi (mv (dagger V) phi) - inverse lam * cdot phi (mv V phi))"
  by (simp add: velocity_c_def mv_madd mv_msmult cdot_vadd_right cdot_smult_right)

subsection \<open>Currents between Schur vectors\<close>

lemma eigen_column:
  assumes "\<forall>a'. a' \<noteq> a \<longrightarrow> Lam a' a = 0"
  shows "col (mm Phi Lam) a = smult (Lam a a) (col Phi a)"
proof (intro ext)
  fix i
  have "(\<Sum>k\<in>UNIV. Phi i k * Lam k a) = (\<Sum>k\<in>UNIV. if k = a then Phi i a * Lam a a else 0)"
    using assms by (intro sum.cong) auto
  then show "col (mm Phi Lam) a i = smult (Lam a a) (col Phi a) i"
    by (simp add: col_def mm_def smult_def mult.commute)
qed

lemma eigen_column_product:
  assumes "\<forall>a'. a' \<noteq> a \<longrightarrow> Lam a' a = 0"
  shows "mm Lam Lam a' a = Lam a' a * Lam a a"
proof -
  have "(\<Sum>k\<in>UNIV. Lam a' k * Lam k a) = (\<Sum>k\<in>UNIV. if k = a then Lam a' a * Lam a a else 0)"
    using assms by (intro sum.cong) auto
  then show ?thesis
    by (simp add: mm_def)
qed

lemma eigen_column_square:
  assumes "\<forall>a'. a' \<noteq> a \<longrightarrow> Lam a' a = 0"
  shows "\<forall>a'. a' \<noteq> a \<longrightarrow> mm Lam Lam a' a = 0"
  using assms by (simp add: eigen_column_product [where Lam = Lam and a = a, OF assms])

lemma col_madd: "col (madd M N) a = vadd (col M a) (col N a)"
  by (simp add: col_def madd_def vadd_def)

lemma col_mm: "col (mm M N) a = mv M (col N a)"
  by (simp add: col_def mm_def mv_def)

lemma bundle_residual_col:
  assumes "\<forall>a'. a' \<noteq> a \<longrightarrow> Lam a' a = 0"
  shows "col (bundle_residual H V E Lam Phi) a = quad_residual H V E (Lam a a) (col Phi a)"
proof -
  have c1: "col (mm Phi Lam) a = smult (Lam a a) (col Phi a)"
    using assms by (rule eigen_column [where Lam = Lam and a = a])
  have "\<forall>a'. a' \<noteq> a \<longrightarrow> mm Lam Lam a' a = 0"
    using assms by (rule eigen_column_square [where Lam = Lam and a = a])
  then have "col (mm Phi (mm Lam Lam)) a = smult (mm Lam Lam a a) (col Phi a)"
    by (rule eigen_column [where Lam = "mm Lam Lam" and a = a])
  then have c2: "col (mm Phi (mm Lam Lam)) a = smult ((Lam a a)\<^sup>2) (col Phi a)"
    by (simp add: eigen_column_product [where Lam = Lam and a = a, OF assms] power2_eq_square)
  have "col (bundle_residual H V E Lam Phi) a
      = vadd (mv V (col Phi a)) (vadd (mv (shiftE H E) (col (mm Phi Lam) a))
          (mv (dagger V) (col (mm Phi (mm Lam Lam)) a)))"
    by (simp add: bundle_residual_def col_def madd_def vadd_def mm_def mv_def)
  then show ?thesis
    by (simp add: c1 c2 quad_residual_def mv_smult)
qed

lemma bundle_residual_cdiag:
  "bundle_residual H V E (cdiag l) Phi = mzero
     \<longleftrightarrow> (\<forall>c. quad_residual H V E (l c) (col Phi c) = vzero)"
proof -
  have d: "\<forall>a'. a' \<noteq> c \<longrightarrow> cdiag l a' c = 0" for c
    by (simp add: cdiag_def)
  have e: "cdiag l c c = l c" for c
    by (simp add: cdiag_def)
  have "bundle_residual H V E (cdiag l) Phi = mzero
      \<longleftrightarrow> (\<forall>c. col (bundle_residual H V E (cdiag l) Phi) c = vzero)"
    by (auto simp add: col_def mzero_def vzero_def fun_eq_iff)
  then show ?thesis
    by (simp only: bundle_residual_col [where Lam = "cdiag l", OF d] e)
qed

text \<open>
  The current matrix between two bundles is a fixed point of \<open>K \<mapsto> \<Lambda>\<^sub>1\<^sup>\<dagger> K \<Lambda>\<^sub>2\<close>: the current
  does not depend on the cell in which it is evaluated.
\<close>

lemma current_form_stationary:
  assumes H: "hermitian H"
    and R1: "bundle_residual H V E Lam1 Phi1 = mzero"
    and R2: "bundle_residual H V E Lam2 Phi2 = mzero"
  shows "mm (dagger Lam1) (mm (current_form V Phi1 Lam1 Phi2 Lam2) Lam2)
         = current_form V Phi1 Lam1 Phi2 Lam2"
proof -
  define M where "M = shiftE H E"
  define X where "X = mm (dagger Phi1) (mm V Phi2)"
  define Y where "Y = mm (dagger Phi1) (mm (dagger V) Phi2)"
  define W where "W = mm (dagger Phi1) (mm M Phi2)"
  define L where "L = dagger Lam1"
  have dM: "dagger M = M"
    unfolding M_def using H by (rule hermitian_shiftE)
  have "mm (dagger Phi1) (bundle_residual H V E Lam2 Phi2) = mzero"
    by (simp add: R2)
  then have e2: "madd X (madd (mm W Lam2) (mm Y (mm Lam2 Lam2))) = mzero"
    by (simp add: bundle_residual_def mm_madd mm_assoc X_def Y_def W_def M_def)
  have "mm (dagger (bundle_residual H V E Lam1 Phi1)) Phi2 = mzero"
    by (simp add: R1)
  then have e1: "madd Y (madd (mm L W) (mm L (mm L X))) = mzero"
    by (simp add: bundle_residual_def dagger_madd dagger_mm mm_madd mm_assoc dM
        X_def Y_def W_def M_def [symmetric] L_def)
  have K: "current_form V Phi1 Lam1 Phi2 Lam2
      = msmult \<i> (madd (mm Y Lam2) (msmult (- 1) (mm L X)))"
    by (simp add: current_form_def X_def Y_def L_def mm_assoc)
  have a: "mm Y (mm Lam2 Lam2) = msmult (- 1) (madd X (mm W Lam2))"
  proof (intro ext)
    fix i j
    from e2 have "madd X (madd (mm W Lam2) (mm Y (mm Lam2 Lam2))) i j = mzero i j"
      by simp
    then show "mm Y (mm Lam2 Lam2) i j = msmult (- 1) (madd X (mm W Lam2)) i j"
      by (simp add: madd_def msmult_def mzero_def) algebra
  qed
  have b: "mm L (mm L X) = msmult (- 1) (madd Y (mm L W))"
  proof (intro ext)
    fix i j
    from e1 have "madd Y (madd (mm L W) (mm L (mm L X))) i j = mzero i j"
      by simp
    then show "mm L (mm L X) i j = msmult (- 1) (madd Y (mm L W)) i j"
      by (simp add: madd_def msmult_def mzero_def) algebra
  qed
  have "mm L (mm (msmult \<i> (madd (mm Y Lam2) (msmult (- 1) (mm L X)))) Lam2)
      = msmult \<i> (madd (mm L (mm Y (mm Lam2 Lam2)))
          (msmult (- 1) (mm (mm L (mm L X)) Lam2)))"
    by (simp add: mm_msmult mm_madd mm_assoc)
  also have "\<dots> = msmult \<i> (madd (mm L (msmult (- 1) (madd X (mm W Lam2))))
          (msmult (- 1) (mm (msmult (- 1) (madd Y (mm L W))) Lam2)))"
    by (simp only: a b)
  also have "\<dots> = msmult \<i> (madd (mm Y Lam2) (msmult (- 1) (mm L X)))"
    by (simp add: mm_msmult mm_madd mm_assoc)
      (simp add: madd_def msmult_def fun_eq_iff algebra_simps)
  finally show ?thesis
    by (simp only: K L_def)
qed

lemma stationary_vanish:
  fixes K :: "('a::finite, 'b::finite) cmat" and r1 :: "'a \<Rightarrow> nat" and r2 :: "'b \<Rightarrow> nat"
  assumes st: "mm (dagger L1) (mm K L2) = K"
    and t1: "\<forall>a' a. a' \<noteq> a \<longrightarrow> L1 a' a \<noteq> 0 \<longrightarrow> r1 a' < r1 a"
    and t2: "\<forall>b' b. b' \<noteq> b \<longrightarrow> L2 b' b \<noteq> 0 \<longrightarrow> r2 b' < r2 b"
    and cl: "\<forall>b' b. b \<in> Z \<longrightarrow> L2 b' b \<noteq> 0 \<longrightarrow> b' \<in> Z"
    and ne: "\<forall>a b. b \<in> Z \<longrightarrow> cnj (L1 a a) * L2 b b \<noteq> 1"
  shows "b \<in> Z \<Longrightarrow> K a b = 0"
proof (induction "r1 a + r2 b" arbitrary: a b rule: less_induct)
  case less
  have expand: "K a b = (\<Sum>a'\<in>UNIV. \<Sum>b'\<in>UNIV. cnj (L1 a' a) * (K a' b' * L2 b' b))"
  proof -
    have "K a b = mm (dagger L1) (mm K L2) a b"
      by (simp only: st)
    then show ?thesis
      by (simp add: mm_def dagger_def sum_distrib_left)
  qed
  have other: "cnj (L1 a' a) * (K a' b' * L2 b' b) = 0" if "\<not> (a' = a \<and> b' = b)" for a' b'
  proof (cases "L1 a' a = 0 \<or> L2 b' b = 0")
    case True
    then show ?thesis by auto
  next
    case False
    then have n1: "L1 a' a \<noteq> 0" and n2: "L2 b' b \<noteq> 0"
      by simp_all
    from n1 t1 have "a' = a \<or> r1 a' < r1 a"
      by blast
    moreover from n2 t2 have "b' = b \<or> r2 b' < r2 b"
      by blast
    ultimately have "r1 a' + r2 b' < r1 a + r2 b"
      using that by auto
    moreover from cl less.prems n2 have "b' \<in> Z"
      by blast
    ultimately have "K a' b' = 0"
      by (rule less.hyps)
    then show ?thesis by simp
  qed
  have inner: "(\<Sum>b'\<in>UNIV. cnj (L1 a' a) * (K a' b' * L2 b' b))
      = (if a' = a then cnj (L1 a a) * (K a b * L2 b b) else 0)" for a'
  proof -
    have "(\<Sum>b'\<in>UNIV. cnj (L1 a' a) * (K a' b' * L2 b' b))
        = (\<Sum>b'\<in>UNIV. if b' = b then cnj (L1 a' a) * (K a' b * L2 b b) else 0)"
      by (intro sum.cong refl) (auto simp add: other)
    also have "\<dots> = cnj (L1 a' a) * (K a' b * L2 b b)"
      by (simp add: sum.delta)
    finally show ?thesis
      by (auto simp add: other)
  qed
  have "(\<Sum>a'\<in>UNIV. \<Sum>b'\<in>UNIV. cnj (L1 a' a) * (K a' b' * L2 b' b))
      = (\<Sum>a'\<in>UNIV. if a' = a then cnj (L1 a a) * (K a b * L2 b b) else 0)"
    by (simp only: inner)
  also have "\<dots> = cnj (L1 a a) * (K a b * L2 b b)"
    by (simp add: sum.delta)
  finally have "K a b = cnj (L1 a a) * (K a b * L2 b b)"
    by (simp only: expand [symmetric])
  then have "(1 - cnj (L1 a a) * L2 b b) * K a b = 0"
    by (simp add: algebra_simps)
  with ne less.prems show ?case
    by simp
qed

lemma dagger_eigen_row:
  assumes "\<forall>a'. a' \<noteq> a \<longrightarrow> Lam a' a = 0"
  shows "mm (dagger Lam) M a b = cnj (Lam a a) * M a b"
proof -
  have "(\<Sum>k\<in>UNIV. cnj (Lam k a) * M k b) = (\<Sum>k\<in>UNIV. if k = a then cnj (Lam a a) * M a b else 0)"
    using assms by (intro sum.cong) auto
  then show ?thesis
    by (simp add: mm_def dagger_def)
qed

lemma current_form_eigen_entry:
  assumes c1: "\<forall>a'. a' \<noteq> a \<longrightarrow> La a' a = 0" and c2: "\<forall>b'. b' \<noteq> b \<longrightarrow> Lb b' b = 0"
  shows "current_form V Pa La Pb Lb a b
     = \<i> * (Lb b b * cdot (col Pa a) (mv (dagger V) (col Pb b))
            - cnj (La a a) * cdot (col Pa a) (mv V (col Pb b)))"
proof -
  have "mm (dagger Pa) (mm (dagger V) (mm Pb Lb)) a b
      = cdot (col Pa a) (mv (dagger V) (col (mm Pb Lb) b))"
    by (simp only: sandwich_entry)
  also have "\<dots> = Lb b b * cdot (col Pa a) (mv (dagger V) (col Pb b))"
    by (simp only: eigen_column [where Lam = Lb and a = b, OF c2] mv_smult cdot_smult_right)
  finally have x: "mm (dagger Pa) (mm (dagger V) (mm Pb Lb)) a b
      = Lb b b * cdot (col Pa a) (mv (dagger V) (col Pb b))" .
  have "mm (dagger La) (mm (dagger Pa) (mm V Pb)) a b
      = cnj (La a a) * mm (dagger Pa) (mm V Pb) a b"
    using c1 by (rule dagger_eigen_row [where Lam = La and a = a])
  also have "\<dots> = cnj (La a a) * cdot (col Pa a) (mv V (col Pb b))"
    by (simp only: sandwich_entry)
  finally have y: "mm (dagger La) (mm (dagger Pa) (mm V Pb)) a b
      = cnj (La a a) * cdot (col Pa a) (mv V (col Pb b))" .
  show ?thesis
    by (simp add: current_form_def msmult_def madd_def x y algebra_simps)
qed

lemma current_form_eigen_velocity:
  assumes c: "\<forall>a'. a' \<noteq> a \<longrightarrow> Lam a' a = 0" and m: "cmod (Lam a a) = 1"
  shows "current_form V Phi Lam Phi Lam a a = complex_of_real (velocity V (Lam a a) (col Phi a))"
proof -
  have "inverse (Lam a a) = cnj (Lam a a)"
    using m complex_div_cnj [of 1 "Lam a a"] by (simp add: inverse_eq_divide)
  then have "current_form V Phi Lam Phi Lam a a = velocity_c V (Lam a a) (col Phi a)"
    by (simp add: current_form_eigen_entry [where La = Lam and Lb = Lam and a = a and b = a, OF c c]
        velocity_c_expand)
  then show ?thesis
    by (simp add: velocity_c_real [OF m])
qed

lemma current_form_eigen_orthogonal:
  assumes H: "hermitian H"
    and c1: "\<forall>a'. a' \<noteq> a \<longrightarrow> La a' a = 0" and c2: "\<forall>b'. b' \<noteq> b \<longrightarrow> Lb b' b = 0"
    and q1: "quad_residual H V E (La a a) (col Pa a) = vzero"
    and q2: "quad_residual H V E (Lb b b) (col Pb b) = vzero"
    and ne: "cnj (La a a) * Lb b b \<noteq> 1"
  shows "current_form V Pa La Pb Lb a b = 0"
  using current_orthogonality [OF H q1 q2] ne
  by (simp add: current_form_eigen_entry [where La = La and Lb = Lb and a = a and b = b, OF c1 c2])

lemma cmod_product_less:
  assumes "cmod x \<le> 1" and "cmod y < 1"
  shows "cnj x * y \<noteq> 1"
proof
  assume "cnj x * y = 1"
  then have "cmod (cnj x * y) = 1"
    by simp
  then have "cmod x * cmod y = 1"
    by (simp add: norm_mult)
  moreover have "cmod x * cmod y \<le> 1 * cmod y"
    using assms(1) by (intro mult_right_mono) simp_all
  ultimately show False
    using assms(2) by simp
qed

text \<open>
  C7. Let the system be lossless: the lead and scattering-region Hamiltonians are
  Hermitian and the coupling is real. Let the outgoing bundle solve the mode problem with
  a matrix \<open>\<Lambda>\<^sub>+\<close> as the mode solver returns it: its propagating columns, the range of \<open>sel\<close>, are
  eigenvectors with \<open>|\<lambda>| = 1\<close> and velocity 1, and its evanescent columns are Schur vectors,
  so that \<open>\<Lambda>\<^sub>+\<close> is triangular on them (for an order given by \<open>rk\<close>) with \<open>|\<lambda>| < 1\<close> on the
  diagonal. Let the incoming modes be eigenvectors with \<open>|\<lambda>| = 1\<close> and velocity \<open>-1\<close>, and
  let different propagating modes whose eigenvalues satisfy \<open>cnj \<lambda>\<^sub>a \<lambda>\<^sub>b = 1\<close> (degenerate momenta)
  carry no current between them. Then for every solution \<open>(\<Psi>\<^sub>s, Q\<^sub>+)\<close> of the stabilised
  scattering system the scattering matrix \<open>S\<close> satisfies \<open>S\<^sup>\<dagger> S = 1\<close>. Unitarity is nowhere
  imposed: it follows from current conservation.
\<close>

theorem scattering_matrix_unitary:
  fixes sel :: "'p::finite \<Rightarrow> 'o::finite" and lm :: "'c::finite \<Rightarrow> complex" and rk :: "'o \<Rightarrow> nat"
  assumes H: "hermitian H" and Hs: "hermitian Hs" and P: "mtranspose P = dagger P"
    and V: "V = mm A (dagger B)" and Al: "mm Al A = mone"
    and modes_out: "bundle_residual H V E Lamp Phip = mzero"
    and modes_in: "\<forall>c. quad_residual H V E (lm c) (col Phim c) = vzero"
    and sel: "inj sel"
    and schur: "\<forall>a b. a \<noteq> b \<longrightarrow> Lamp a b \<noteq> 0 \<longrightarrow> a \<notin> range sel \<and> b \<notin> range sel \<and> rk a < rk b"
    and prop_out: "\<forall>p. cmod (Lamp (sel p) (sel p)) = 1
        \<and> velocity V (Lamp (sel p) (sel p)) (col Phip (sel p)) = 1"
    and evan_out: "\<forall>a. a \<notin> range sel \<longrightarrow> cmod (Lamp a a) < 1"
    and prop_in: "\<forall>c. cmod (lm c) = 1 \<and> velocity V (lm c) (col Phim c) = - 1"
    and orth_out: "\<forall>p q. p \<noteq> q \<longrightarrow> cnj (Lamp (sel p) (sel p)) * Lamp (sel q) (sel q) = 1 \<longrightarrow>
        current_form V Phip Lamp Phip Lamp (sel p) (sel q) = 0"
    and orth_in: "\<forall>c d. c \<noteq> d \<longrightarrow> cnj (lm c) * lm d = 1 \<longrightarrow>
        current_form V Phim (cdiag lm) Phim (cdiag lm) c d = 0"
    and orth_mixed: "\<forall>p c. cnj (Lamp (sel p) (sel p)) * lm c = 1 \<longrightarrow>
        current_form V Phip Lamp Phim (cdiag lm) (sel p) c = 0"
    and sys: "stabilized_system Hs E P B (Xi_bar A Phip Lamp) (Phi_bar B Phip)
        (Xi_bar A Phim (cdiag lm)) (Phi_bar B Phim) (Psi, Q)"
  shows "mm (dagger (smatrix sel Q)) (smatrix sel Q) = mone"
proof -
  have ein: "\<forall>c'. c' \<noteq> c \<longrightarrow> cdiag lm c' c = 0" for c
    by (simp add: cdiag_def)
  have din: "cdiag lm c c = lm c" for c
    by (simp add: cdiag_def)
  have eout: "\<forall>a'. a' \<noteq> sel p \<longrightarrow> Lamp a' (sel p) = 0" for p
    using schur by blast
  have tri: "\<forall>a' a. a' \<noteq> a \<longrightarrow> Lamp a' a \<noteq> 0 \<longrightarrow> rk a' < rk a"
    using schur by blast
  have closed: "\<forall>b' b. b \<in> - range sel \<longrightarrow> Lamp b' b \<noteq> 0 \<longrightarrow> b' \<in> - range sel"
    using schur by (metis ComplI ComplD)
  have bound: "cmod (Lamp a a) \<le> 1" for a
  proof (cases "a \<in> range sel")
    case True
    then obtain p where "a = sel p" by auto
    with prop_out show ?thesis by simp
  next
    case False
    with evan_out have "cmod (Lamp a a) < 1" by simp
    then show ?thesis by simp
  qed
  have qout: "quad_residual H V E (Lamp (sel p) (sel p)) (col Phip (sel p)) = vzero" for p
  proof -
    have "col (bundle_residual H V E Lamp Phip) (sel p) = vzero"
      by (simp add: modes_out col_def mzero_def vzero_def)
    then show ?thesis
      by (simp only: bundle_residual_col [where Lam = Lamp and a = "sel p", OF eout])
  qed
  have res_in: "bundle_residual H V E (cdiag lm) Phim = mzero"
    using modes_in by (simp add: bundle_residual_cdiag)
  have herm: "current_form V Phip Lamp Phip Lamp a b = cnj (current_form V Phip Lamp Phip Lamp b a)"
    for a b
    using dagger_current_form [of V Phip Lamp Phip Lamp]
    by (metis dagger_def)
  have st_pp: "mm (dagger Lamp) (mm (current_form V Phip Lamp Phip Lamp) Lamp)
      = current_form V Phip Lamp Phip Lamp"
    using H modes_out modes_out by (rule current_form_stationary)
  have st_mp: "mm (dagger (cdiag lm)) (mm (current_form V Phim (cdiag lm) Phip Lamp) Lamp)
      = current_form V Phim (cdiag lm) Phip Lamp"
    using H res_in modes_out by (rule current_form_stationary)
  have ev_right: "current_form V Phip Lamp Phip Lamp a b = 0" if "b \<notin> range sel" for a b
  proof (rule stationary_vanish [where Z = "- range sel" and ?r1.0 = rk and ?r2.0 = rk,
        OF st_pp tri tri closed])
    show "\<forall>a b. b \<in> - range sel \<longrightarrow> cnj (Lamp a a) * Lamp b b \<noteq> 1"
      using bound evan_out by (simp add: cmod_product_less)
    show "b \<in> - range sel"
      using that by simp
  qed
  have Kpp: "current_form V Phip Lamp Phip Lamp = channel_signature sel"
  proof (intro ext)
    fix a b
    show "current_form V Phip Lamp Phip Lamp a b = channel_signature sel a b"
    proof (cases "a \<in> range sel \<and> b \<in> range sel")
      case True
      then obtain p q where a: "a = sel p" and b: "b = sel q"
        by auto
      show ?thesis
      proof (cases "p = q")
        case True
        from prop_out have "cmod (Lamp (sel p) (sel p)) = 1"
          and "velocity V (Lamp (sel p) (sel p)) (col Phip (sel p)) = 1"
          by simp_all
        then have "current_form V Phip Lamp Phip Lamp (sel p) (sel p) = 1"
          by (simp add: current_form_eigen_velocity [where Lam = Lamp and a = "sel p", OF eout])
        with True a b show ?thesis
          by (simp add: channel_signature_def)
      next
        case False
        have "current_form V Phip Lamp Phip Lamp (sel p) (sel q) = 0"
        proof (cases "cnj (Lamp (sel p) (sel p)) * Lamp (sel q) (sel q) = 1")
          case True
          with orth_out False show ?thesis by simp
        next
          case False
          with H eout [of p] eout [of q] qout [of p] qout [of q] show ?thesis
            by (rule current_form_eigen_orthogonal
                [where La = Lamp and Lb = Lamp and a = "sel p" and b = "sel q"])
        qed
        moreover from False sel have "sel p \<noteq> sel q"
          by (simp add: inj_eq)
        ultimately show ?thesis
          by (simp add: a b channel_signature_def)
      qed
    next
      case False
      have "current_form V Phip Lamp Phip Lamp a b = 0"
      proof (cases "b \<in> range sel")
        case False
        then show ?thesis by (rule ev_right)
      next
        case True
        with \<open>\<not> (a \<in> range sel \<and> b \<in> range sel)\<close> have "a \<notin> range sel"
          by simp
        then have "current_form V Phip Lamp Phip Lamp b a = 0"
          by (rule ev_right)
        then show ?thesis
          by (simp add: herm [of a b])
      qed
      with False show ?thesis
        by (auto simp add: channel_signature_def)
    qed
  qed
  have Kpm: "current_form V Phip Lamp Phim (cdiag lm) = mzero"
  proof (intro ext)
    fix a c
    have "current_form V Phip Lamp Phim (cdiag lm) a c = 0"
    proof (cases "a \<in> range sel")
      case True
      then obtain p where a: "a = sel p" by auto
      have "current_form V Phip Lamp Phim (cdiag lm) (sel p) c = 0"
      proof (cases "cnj (Lamp (sel p) (sel p)) * lm c = 1")
        case True
        with orth_mixed show ?thesis by simp
      next
        case False
        from modes_in have "quad_residual H V E (cdiag lm c c) (col Phim c) = vzero"
          by (simp add: din)
        with H eout [of p] ein [of c] qout [of p]
        show ?thesis
        proof (rule current_form_eigen_orthogonal
            [where La = Lamp and Lb = "cdiag lm" and a = "sel p" and b = c])
          from False show "cnj (Lamp (sel p) (sel p)) * cdiag lm c c \<noteq> 1"
            by (simp add: din)
        qed
      qed
      with a show ?thesis by simp
    next
      case False
      have "current_form V Phim (cdiag lm) Phip Lamp c a = 0"
      proof (rule stationary_vanish [where Z = "- range sel" and ?r1.0 = "\<lambda>c. 0" and ?r2.0 = rk,
            OF st_mp _ tri closed])
        show "\<forall>c' c. c' \<noteq> c \<longrightarrow> cdiag lm c' c \<noteq> 0 \<longrightarrow> (0::nat) < 0"
          by (simp add: cdiag_def)
        show "\<forall>c b. b \<in> - range sel \<longrightarrow> cnj (cdiag lm c c) * Lamp b b \<noteq> 1"
          using prop_in evan_out by (simp add: din cmod_product_less)
        show "a \<in> - range sel"
          using False by simp
      qed
      then show ?thesis
        using dagger_current_form [of V Phim "cdiag lm" Phip Lamp]
        by (metis dagger_def complex_cnj_zero)
    qed
    then show "current_form V Phip Lamp Phim (cdiag lm) a c = mzero a c"
      by (simp add: mzero_def)
  qed
  have Kmm: "current_form V Phim (cdiag lm) Phim (cdiag lm) = msmult (- 1) mone"
  proof (intro ext)
    fix c d
    show "current_form V Phim (cdiag lm) Phim (cdiag lm) c d = msmult (- 1) mone c d"
    proof (cases "c = d")
      case True
      from prop_in have "cmod (cdiag lm c c) = 1"
        and "velocity V (cdiag lm c c) (col Phim c) = - 1"
        by (simp_all add: din)
      then have "current_form V Phim (cdiag lm) Phim (cdiag lm) c c = - 1"
        by (simp add: current_form_eigen_velocity [where Lam = "cdiag lm" and a = c, OF ein])
      with True show ?thesis
        by (simp add: msmult_def mone_def)
    next
      case False
      have "current_form V Phim (cdiag lm) Phim (cdiag lm) c d = 0"
      proof (cases "cnj (lm c) * lm d = 1")
        case True
        with orth_in False show ?thesis by simp
      next
        case False
        from modes_in have "quad_residual H V E (cdiag lm c c) (col Phim c) = vzero"
          and "quad_residual H V E (cdiag lm d d) (col Phim d) = vzero"
          by (simp_all add: din)
        with H ein [of c] ein [of d] show ?thesis
        proof (rule current_form_eigen_orthogonal
            [where La = "cdiag lm" and Lb = "cdiag lm" and a = c and b = d])
          from False show "cnj (cdiag lm c c) * cdiag lm d d \<noteq> 1"
            by (simp add: din)
        qed
      qed
      with False show ?thesis
        by (simp add: msmult_def mone_def)
    qed
  qed
  from sys have "unstabilized_system Hs E P V Phip Lamp Phim (cdiag lm) (Psi, Q)"
    by (simp only: stabilized_iff_unstabilized [OF V Al])
  then show ?thesis
    using Kpp Kpm Kmm by (rule current_normalised_unitary [OF Hs P _ sel])
qed

lemmas cmat_eval = mm_def mv_def madd_def msmult_def dagger_def mtranspose_def shiftE_def
  mone_def mzero_def vadd_def smult_def vzero_def cdot_def cdiag_def col_def Xi_bar_def
  Phi_bar_def smatrix_def

lemma lad_system:
  "stabilized_system lad_Hs 2 lad_one lad_one (Xi_bar lad_V lad_one (cdiag lad_out))
     (Phi_bar lad_one lad_one) (Xi_bar lad_V lad_one (cdiag lad_in)) (Phi_bar lad_one lad_one)
     (lad_Psi, lad_Q)"
  by (simp add: cmat_eval lad_Hs_def lad_one_def lad_V_def lad_out_def lad_in_def
      lad_Psi_def lad_Q_def fun_eq_iff UNIV_bool complex_eq_iff)

lemma lad_modes:
  "quad_residual lad_H lad_V 2 (- \<i>) phi = vzero" "quad_residual lad_H lad_V 2 \<i> phi = vzero"
  by (simp_all add: quad_residual_def cmat_eval lad_H_def lad_V_def fun_eq_iff UNIV_bool
      complex_eq_iff)

lemma lad_velocity:
  "velocity lad_V (- \<i>) (col lad_one a) = 1" "velocity lad_V \<i> (col lad_one a) = - 1"
  by (simp_all add: velocity_def velocity_c_def cmat_eval lad_V_def lad_one_def UNIV_bool)

text \<open>
  C7 as stated does not hold: in the ladder every condition it names is met (Hermitian
  Hamiltonians, real coupling, every mode a solution of the mode problem with \<open>|\<lambda>| = 1\<close> and
  velocity 1 or \<open>-1\<close>, orthonormal wavefunctions, the stabilised system solved), but the two
  degenerate modes carry the current \<open>1/2\<close> between them, and \<open>S\<^sup>\<dagger> S\<close> has the diagonal entry
  \<open>41/25\<close>.
\<close>

theorem scattering_matrix_unitary_counterexample:
  "hermitian lad_H \<and> hermitian lad_Hs \<and> mtranspose lad_one = dagger lad_one
   \<and> lad_V = mm lad_V (dagger lad_one) \<and> mm lad_Vinv lad_V = mone
   \<and> quad_residual lad_H lad_V 2 (lad_out False) (col lad_one False) = vzero
   \<and> quad_residual lad_H lad_V 2 (lad_out True) (col lad_one True) = vzero
   \<and> quad_residual lad_H lad_V 2 (lad_in False) (col lad_one False) = vzero
   \<and> quad_residual lad_H lad_V 2 (lad_in True) (col lad_one True) = vzero
   \<and> cmod (lad_out False) = 1 \<and> cmod (lad_out True) = 1
   \<and> cmod (lad_in False) = 1 \<and> cmod (lad_in True) = 1
   \<and> velocity lad_V (lad_out False) (col lad_one False) = 1
   \<and> velocity lad_V (lad_out True) (col lad_one True) = 1
   \<and> velocity lad_V (lad_in False) (col lad_one False) = - 1
   \<and> velocity lad_V (lad_in True) (col lad_one True) = - 1
   \<and> cdot (col lad_one False) (col lad_one True) = 0
   \<and> stabilized_system lad_Hs 2 lad_one lad_one (Xi_bar lad_V lad_one (cdiag lad_out))
        (Phi_bar lad_one lad_one) (Xi_bar lad_V lad_one (cdiag lad_in))
        (Phi_bar lad_one lad_one) (lad_Psi, lad_Q)
   \<and> current_form lad_V lad_one (cdiag lad_out) lad_one (cdiag lad_out) False True = 1 / 2
   \<and> mm (dagger (smatrix id lad_Q)) (smatrix id lad_Q) True True = 41 / 25
   \<and> mm (dagger (smatrix id lad_Q)) (smatrix id lad_Q) \<noteq> mone"
proof -
  have h: "hermitian lad_H" "hermitian lad_Hs" "mtranspose lad_one = dagger lad_one"
    by (auto simp add: hermitian_def dagger_def mtranspose_def lad_H_def lad_Hs_def lad_one_def
        fun_eq_iff)
  have f: "lad_V = mm lad_V (dagger lad_one)" "mm lad_Vinv lad_V = mone"
    by (simp_all add: cmat_eval lad_V_def lad_Vinv_def lad_one_def fun_eq_iff UNIV_bool)
  have o: "cdot (col lad_one False) (col lad_one True) = 0"
    by (simp add: cmat_eval lad_one_def UNIV_bool)
  have k: "current_form lad_V lad_one (cdiag lad_out) lad_one (cdiag lad_out) False True = 1 / 2"
    by (simp add: current_form_def cmat_eval lad_V_def lad_one_def lad_out_def UNIV_bool)
  have s: "mm (dagger (smatrix id lad_Q)) (smatrix id lad_Q) True True = 41 / 25"
    by (simp add: cmat_eval lad_Q_def UNIV_bool complex_eq_iff)
  have n: "mm (dagger (smatrix id lad_Q)) (smatrix id lad_Q) \<noteq> mone"
  proof
    assume "mm (dagger (smatrix id lad_Q)) (smatrix id lad_Q) = mone"
    then have "mm (dagger (smatrix id lad_Q)) (smatrix id lad_Q) True True = mone True True"
      by (rule arg_cong)
    then have "(41 / 25 :: complex) = 1"
      unfolding s by (simp add: mone_def)
    then show False
      by simp
  qed
  show ?thesis
    using h f o k s n lad_system
    by (simp add: lad_out_def lad_in_def lad_modes lad_velocity)
qed

lemma UNIV_bool_option: "(UNIV :: bool option set) = {None, Some False, Some True}"
  by (auto simp add: UNIV_option_conv UNIV_bool)

lemma sch_system:
  "stabilized_system sch_Hs 2 mone mone (Xi_bar sch_V sch_Phip sch_Lamp) (Phi_bar mone sch_Phip)
     (Xi_bar sch_V sch_Phim (cdiag ev_in)) (Phi_bar mone sch_Phim) (sch_Psi, sch_Q)"
  by (simp add: cmat_eval sch_Hs_def sch_V_def sch_Phip_def sch_Lamp_def sch_Phim_def ev_in_def
      sch_Psi_def sch_Q_def fun_eq_iff UNIV_bool_option complex_eq_iff split: option.splits)

lemma sch_modes_out: "bundle_residual sch_H sch_V 2 sch_Lamp sch_Phip = mzero"
  by (simp add: bundle_residual_def cmat_eval sch_H_def sch_V_def sch_Phip_def sch_Lamp_def
      fun_eq_iff UNIV_bool_option complex_eq_iff split: option.splits)

lemma sch_modes_in: "quad_residual sch_H sch_V 2 (ev_in c) (col sch_Phim c) = vzero"
  by (simp add: quad_residual_def cmat_eval sch_H_def sch_V_def sch_Phim_def ev_in_def
      fun_eq_iff UNIV_bool_option complex_eq_iff split: option.splits)

lemma sch_velocity:
  "velocity sch_V (sch_Lamp None None) (col sch_Phip None) = 1"
  "velocity sch_V (ev_in c) (col sch_Phim c) = - 1"
  by (simp_all add: velocity_def velocity_c_def cmat_eval sch_V_def sch_Phip_def sch_Phim_def
      sch_Lamp_def ev_in_def UNIV_bool_option)

theorem scattering_matrix_unitary_witness:
  "stabilized_system sch_Hs 2 mone mone (Xi_bar sch_V sch_Phip sch_Lamp) (Phi_bar mone sch_Phip)
     (Xi_bar sch_V sch_Phim (cdiag ev_in)) (Phi_bar mone sch_Phim) (sch_Psi, sch_Q)
   \<and> bundle_residual sch_H sch_V 2 sch_Lamp sch_Phip = mzero
   \<and> sch_Lamp (Some False) (Some True) = 1
   \<and> cmod (sch_Lamp (Some False) (Some False)) < 1 \<and> cmod (sch_Lamp (Some True) (Some True)) < 1
   \<and> velocity sch_V (sch_Lamp None None) (col sch_Phip None) = 1
   \<and> velocity sch_V (ev_in ()) (col sch_Phim ()) = - 1
   \<and> mm (dagger (smatrix sch_sel sch_Q)) (smatrix sch_sel sch_Q) = mone
   \<and> smatrix sch_sel sch_Q () () = - \<i>"
proof -
  have H: "hermitian sch_H" and Hs: "hermitian sch_Hs"
    by (auto simp add: hermitian_def dagger_def sch_H_def sch_Hs_def fun_eq_iff
        split: option.splits bool.splits)
  have P: "mtranspose (mone :: (bool option, bool option) cmat) = dagger mone"
    by (auto simp add: mtranspose_def dagger_def mone_def fun_eq_iff)
  have V: "sch_V = mm sch_V (dagger mone)"
    by simp
  have Al: "mm (msmult 2 mone) sch_V = mone"
    by (simp add: mm_msmult) (simp add: msmult_def mone_def sch_V_def fun_eq_iff)
  have sel: "inj sch_sel"
    by (simp add: inj_def)
  have r: "range sch_sel = {None}"
    by (auto simp add: sch_sel_def)
  have ev: "cmod (sch_Lamp (Some False) (Some False)) < 1"
    "cmod (sch_Lamp (Some True) (Some True)) < 1"
    by (simp_all add: sch_Lamp_def)
  have unitary: "mm (dagger (smatrix sch_sel sch_Q)) (smatrix sch_sel sch_Q) = mone"
  proof (rule scattering_matrix_unitary [where rk = sch_rk,
        OF H Hs P V Al sch_modes_out _ sel _ _ _ _ _ _ _ sch_system])
    show "\<forall>c. quad_residual sch_H sch_V 2 (ev_in c) (col sch_Phim c) = vzero"
      by (simp add: sch_modes_in)
    show "\<forall>a b. a \<noteq> b \<longrightarrow> sch_Lamp a b \<noteq> 0 \<longrightarrow>
        a \<notin> range sch_sel \<and> b \<notin> range sch_sel \<and> sch_rk a < sch_rk b"
      by (auto simp add: r sch_Lamp_def sch_rk_def)
    show "\<forall>p. cmod (sch_Lamp (sch_sel p) (sch_sel p)) = 1
        \<and> velocity sch_V (sch_Lamp (sch_sel p) (sch_sel p)) (col sch_Phip (sch_sel p)) = 1"
      by (simp add: sch_sel_def sch_velocity) (simp add: sch_Lamp_def)
    show "\<forall>a. a \<notin> range sch_sel \<longrightarrow> cmod (sch_Lamp a a) < 1"
      by (simp add: r sch_Lamp_def split: option.splits bool.splits)
    show "\<forall>c. cmod (ev_in c) = 1 \<and> velocity sch_V (ev_in c) (col sch_Phim c) = - 1"
      by (simp add: sch_velocity) (simp add: ev_in_def)
    show "\<forall>p q. p \<noteq> q \<longrightarrow>
        cnj (sch_Lamp (sch_sel p) (sch_sel p)) * sch_Lamp (sch_sel q) (sch_sel q) = 1 \<longrightarrow>
        current_form sch_V sch_Phip sch_Lamp sch_Phip sch_Lamp (sch_sel p) (sch_sel q) = 0"
      by simp
    show "\<forall>c d. c \<noteq> d \<longrightarrow> cnj (ev_in c) * ev_in d = 1 \<longrightarrow>
        current_form sch_V sch_Phim (cdiag ev_in) sch_Phim (cdiag ev_in) c d = 0"
      by simp
    show "\<forall>p c. cnj (sch_Lamp (sch_sel p) (sch_sel p)) * ev_in c = 1 \<longrightarrow>
        current_form sch_V sch_Phip sch_Lamp sch_Phim (cdiag ev_in) (sch_sel p) c = 0"
      by (simp add: sch_sel_def sch_Lamp_def ev_in_def complex_eq_iff)
  qed
  have o: "sch_Lamp (Some False) (Some True) = 1"
    by (simp add: sch_Lamp_def)
  have q: "smatrix sch_sel sch_Q () () = - \<i>"
    by (simp add: smatrix_def sch_sel_def sch_Q_def)
  from sch_system sch_modes_out o ev sch_velocity(1) sch_velocity(2) [of "()"] unitary q
  show ?thesis by (intro conjI)
qed

section \<open>A vanishing hopping matrix\<close>

lemma enum_sum: "(\<Sum>k\<leftarrow>(Enum.enum :: 'n::enum list). f k) = (\<Sum>k\<in>UNIV. f k)"
  by (simp add: sum_list_distinct_conv_sum_set enum_distinct enum_UNIV)

lemma shifted_inverse_sound:
  fixes H :: "('n::enum, 'n) cmat"
  assumes "shifted_inverse H E A B = Some G"
  shows "mm (Hbar H E A B) G = mone"
proof (intro ext)
  fix i c :: 'n
  have "(Hbar H E A B i, \<lambda>c. if i = c then 1 else 0)
      \<in> set (map (\<lambda>i. (Hbar H E A B i, \<lambda>c. if i = c then (1::complex) else 0)) Enum.enum)"
    by (simp add: enum_UNIV)
  moreover have "c \<in> set Enum.enum"
    by (simp add: enum_UNIV)
  ultimately have "(\<Sum>k\<leftarrow>Enum.enum. Hbar H E A B i k * G k c) = (if i = c then 1 else 0)"
    using direct_solve_sound [OF enum_distinct assms [unfolded shifted_inverse_def]] by fastforce
  then show "mm (Hbar H E A B) G i c = mone i c"
    by (simp add: enum_sum mm_def mone_def)
qed

lemma shifted_inverse_complete:
  fixes H :: "('n::enum, 'n) cmat"
  assumes "is_inverse (Hbar H E A B) G0"
  shows "\<exists>G. shifted_inverse H E A B = Some G"
proof (rule ccontr)
  assume "\<not> (\<exists>G. shifted_inverse H E A B = Some G)"
  then have none: "direct_solve Enum.enum Enum.enum
      (map (\<lambda>i. (Hbar H E A B i, \<lambda>c. if i = c then (1::complex) else 0)) Enum.enum) = None"
    by (simp add: shifted_inverse_def)
  from assms have r: "mm (Hbar H E A B) G0 = mone" and l: "mm G0 (Hbar H E A B) = mone"
    by (simp_all add: is_inverse_def)
  have "\<forall>eq\<in>set (map (\<lambda>i. (Hbar H E A B i, \<lambda>c. if i = c then (1::complex) else 0)) Enum.enum).
      \<forall>c\<in>set Enum.enum. (\<Sum>k\<leftarrow>Enum.enum. fst eq k * G0 k c) = snd eq c"
  proof (intro ballI)
    fix eq :: "('n, 'n) equation" and c :: 'n
    assume "eq \<in> set (map (\<lambda>i. (Hbar H E A B i, \<lambda>c. if i = c then (1::complex) else 0)) Enum.enum)"
    then obtain i where eq: "eq = (Hbar H E A B i, \<lambda>c. if i = c then 1 else 0)"
      by auto
    have "mm (Hbar H E A B) G0 i c = mone i c"
      by (simp only: r)
    then show "(\<Sum>k\<leftarrow>Enum.enum. fst eq k * G0 k c) = snd eq c"
      by (simp add: eq enum_sum mm_def mone_def)
  qed
  with enum_distinct none obtain z
    where nz: "\<exists>u\<in>set (Enum.enum :: 'n list). z u \<noteq> 0"
      and hom: "\<forall>eq\<in>set (map (\<lambda>i. (Hbar H E A B i, \<lambda>c. if i = c then (1::complex) else 0)) Enum.enum).
        (\<Sum>k\<leftarrow>Enum.enum. fst eq k * z k) = 0"
    using direct_solve_complete by blast
  have "mv (Hbar H E A B) z = vzero"
  proof (intro ext)
    fix i
    have "(Hbar H E A B i, \<lambda>c. if i = c then 1 else 0)
        \<in> set (map (\<lambda>i. (Hbar H E A B i, \<lambda>c. if i = c then (1::complex) else 0)) Enum.enum)"
      by (simp add: enum_UNIV)
    with hom have "(\<Sum>k\<leftarrow>Enum.enum. Hbar H E A B i k * z k) = 0"
      by fastforce
    then show "mv (Hbar H E A B) z i = vzero i"
      by (simp add: enum_sum mv_def vzero_def)
  qed
  then have "mv G0 (mv (Hbar H E A B) z) = vzero"
    by simp
  then have "z = vzero"
    by (simp only: left_inverse_cancel [OF l])
  with nz show False
    by (simp add: vzero_def)
qed

lemma diag_zero: "diag (\<lambda>k. 0) = mzero"
  by (simp add: diag_def mzero_def fun_eq_iff)

lemma zero_singular_values:
  "hop_A_sing U (\<lambda>k. 0) = mzero" "hop_B_sing W (\<lambda>k. 0) = mzero"
  "svd_product U (\<lambda>k. 0) W = mzero"
  by (simp_all add: hop_A_sing_def hop_B_sing_def svd_product_def diag_zero)

lemma Hbar_zero_hopping: "Hbar H E mzero mzero = shiftE H E"
  by (simp add: Hbar_def)

lemma zero_hopping_quadratic:
  "quad_residual H mzero E lam phi = smult lam (mv (shiftE H E) phi)"
  by (simp add: quad_residual_def)

lemma zero_hopping_eigenvalue:
  assumes G: "mm G (shiftE H E) = mone"
    and q: "quad_residual H mzero E lam phi = vzero" and phi: "phi \<noteq> vzero"
  shows "lam = 0"
proof (rule ccontr)
  assume "lam \<noteq> 0"
  with q have "mv (shiftE H E) phi = vzero"
    by (simp add: zero_hopping_quadratic smult_eq_vzero_iff)
  then have "mv G (mv (shiftE H E) phi) = vzero"
    by simp
  then have "phi = vzero"
    by (simp only: left_inverse_cancel [OF G])
  with phi show False by simp
qed

lemma zero_hopping_evanescent:
  assumes G: "mm G (shiftE H E) = mone"
    and tol: "0 < vtol \<or> ltol < 1 \<and> quad_residual H mzero E lam phi = vzero \<and> phi \<noteq> vzero"
  shows "velocity mzero lam phi = 0 \<and> classify_mode ltol vtol mzero lam phi = Evanescent"
proof -
  from tol have "classify_mode ltol vtol mzero lam phi = Evanescent"
  proof
    assume "0 < vtol"
    then show ?thesis
      by (simp add: classify_mode_def)
  next
    assume h: "ltol < 1 \<and> quad_residual H mzero E lam phi = vzero \<and> phi \<noteq> vzero"
    with G have "lam = 0"
      by (intro zero_hopping_eigenvalue [where G = G and H = H and E = E and phi = phi]) simp_all
    with h show ?thesis
      by (simp add: classify_mode_def)
  qed
  then show ?thesis
    by simp
qed

lemma channels_empty:
  assumes "\<forall>m\<in>set ms. classify_mode ltol vtol V (fst m) (snd m) = Evanescent"
  shows "channels d ltol vtol V ms = []"
proof -
  have "classify_mode ltol vtol V (fst (ms ! k)) (snd (ms ! k)) \<noteq> Propagating d"
    if "k \<in> set [0 ..< length ms]" for k
    using assms that by simp
  then show ?thesis
    unfolding channels_def filter_empty_conv by blast
qed

lemma zero_hopping_assembly:
  fixes Hs :: "('s::enum, 's) cmat" and P :: "('n::finite, 's) cmat"
  assumes Gs: "mm Gs (shiftE Hs E) = mone"
    and ind: "\<forall>q. mode_comb q (map (\<lambda>m. fst (snd m)) outs) = vzero \<longrightarrow> (\<forall>k<length outs. q k = 0)"
    and oc: "out_channels outs = []"
  shows "\<exists>Psi Q. solve_scattering Hs E P (mzero :: ('n, 'r::enum) cmat) outs [] = Inr (Psi, Q, [])"
proof -
  have "solve_scattering Hs E P (mzero :: ('n, 'r) cmat) outs [] \<noteq> Inl SingularAssemblyMatrix"
  proof (rule solve_scattering_succeeds)
    show "\<forall>c<length []. \<exists>psi q. stabilized_rows Hs E P (mzero :: ('n, 'r) cmat)
        (mode_comb q (map (\<lambda>m. snd (snd m)) outs)) (mode_comb q (map (\<lambda>m. fst (snd m)) outs))
        (snd ([] ! c)) (fst ([] ! c)) psi"
      by simp
    show "\<forall>psi q. stabilized_rows Hs E P (mzero :: ('n, 'r) cmat)
        (mode_comb q (map (\<lambda>m. snd (snd m)) outs)) (mode_comb q (map (\<lambda>m. fst (snd m)) outs))
        vzero vzero psi \<longrightarrow> psi = vzero \<and> (\<forall>k<length outs. q k = 0)"
    proof (intro allI impI)
      fix psi q
      assume "stabilized_rows Hs E P (mzero :: ('n, 'r) cmat)
        (mode_comb q (map (\<lambda>m. snd (snd m)) outs)) (mode_comb q (map (\<lambda>m. fst (snd m)) outs))
        vzero vzero psi"
      then have a: "mv (shiftE Hs E) psi = vzero"
        and b: "smult (- 1) (mode_comb q (map (\<lambda>m. fst (snd m)) outs)) = vzero"
        by (simp_all add: stabilized_rows_def)
      from a have "mv Gs (mv (shiftE Hs E) psi) = vzero"
        by simp
      then have psi: "psi = vzero"
        by (simp only: left_inverse_cancel [OF Gs])
      from b have "mode_comb q (map (\<lambda>m. fst (snd m)) outs) = vzero"
        by (simp add: smult_eq_vzero_iff)
      with ind have "\<forall>k<length outs. q k = 0"
        by blast
      with psi show "psi = vzero \<and> (\<forall>k<length outs. q k = 0)"
        by simp
    qed
  qed
  then show ?thesis
    by (auto simp add: solve_scattering_def smatrix_rows_def oc split: option.splits)
qed

lemma flat_stab_mode:
  "bmv (sing_rhs (mzero :: (unit, unit) cmat) mzero G) (flat_phi, vzero) = (vzero, vzero)"
  "bmv (sing_lhs (mzero :: (unit, unit) cmat) mzero G) (flat_phi, vzero) = (vzero, flat_phi)"
  by (simp_all add: sing_rhs_def sing_lhs_def mv_msmult mv_madd)




section \<open>The shifted operator of the singular path\<close>

text \<open>
  The shift \<open>i A A\<^sup>\<dagger> + i B B\<^sup>\<dagger>\<close> removes the kernel of \<open>H - E\<close> except for vectors that
  decouple from the hopping: a vector annihilated by the shifted operator is annihilated
  by \<open>H - E\<close>, by \<open>A\<^sup>\<dagger>\<close> and by \<open>B\<^sup>\<dagger>\<close>.
\<close>

lemma cdot_self: "cdot y y = complex_of_real (\<Sum>i\<in>UNIV. (cmod (y i))\<^sup>2)"
proof -
  have "cnj (y i) * y i = complex_of_real ((cmod (y i))\<^sup>2)" for i
    by (simp only: complex_norm_square mult.commute)
  then show ?thesis by (simp add: cdot_def)
qed

lemma cdot_self_zero:
  assumes "Re (cdot y y) = 0"
  shows "y = vzero"
proof (intro ext)
  fix i
  from assms have "(\<Sum>i\<in>UNIV. (cmod (y i))\<^sup>2) = 0"
    by (simp add: cdot_self)
  then have "(cmod (y i))\<^sup>2 = 0"
    by (simp add: sum_nonneg_eq_0_iff)
  then show "y i = vzero i"
    by (simp add: vzero_def)
qed

lemma cdot_hermitian_real:
  assumes "dagger S = S"
  shows "Im (cdot x (mv S x)) = 0"
proof -
  have "cnj (cdot x (mv S x)) = cdot (mv S x) x"
    by (rule cnj_cdot)
  also have "\<dots> = cdot x (mv S x)"
    by (simp add: cdot_adjoint_left assms)
  finally have "Im (cnj (cdot x (mv S x))) = Im (cdot x (mv S x))"
    by simp
  then show ?thesis by simp
qed

lemma Hbar_kernel:
  assumes H: "hermitian H" and k: "mv (Hbar H E A B) x = vzero"
  shows "mv (dagger A) x = vzero \<and> mv (dagger B) x = vzero \<and> mv (shiftE H E) x = vzero"
proof -
  let ?a = "mv (dagger A) x" and ?b = "mv (dagger B) x"
  have expand: "mv (Hbar H E A B) x
      = vadd (mv (shiftE H E) x) (vadd (smult \<i> (mv A ?a)) (smult \<i> (mv B ?b)))"
    by (simp add: Hbar_def mv_madd mv_msmult mv_mm)
  have "cdot x (mv (Hbar H E A B) x) = 0"
    by (simp add: k)
  then have "cdot x (mv (shiftE H E) x) + (\<i> * cdot ?a ?a + \<i> * cdot ?b ?b) = 0"
    by (simp add: expand cdot_vadd_right cdot_smult_right cdot_adjoint [of x A] cdot_adjoint [of x B])
  then have "Im (cdot x (mv (shiftE H E) x)) + (Re (cdot ?a ?a) + Re (cdot ?b ?b)) = 0"
    by (simp add: complex_eq_iff)
  then have "Re (cdot ?a ?a) + Re (cdot ?b ?b) = 0"
    by (simp add: cdot_hermitian_real [OF hermitian_shiftE [OF H]])
  moreover have "0 \<le> Re (cdot ?a ?a)" "0 \<le> Re (cdot ?b ?b)"
    by (simp_all add: cdot_self sum_nonneg)
  ultimately have "Re (cdot ?a ?a) = 0" and "Re (cdot ?b ?b) = 0"
    by linarith+
  then have a: "?a = vzero" and b: "?b = vzero"
    by (simp_all add: cdot_self_zero)
  from k have "mv (shiftE H E) x = vzero"
    by (simp add: expand a b)
  with a b show ?thesis by simp
qed

end
